(* ===== verification/Prelude.thy ===== *)
theory Prelude
  imports Complex_Main "HOL-Library.Word"
begin

text \<open>
  Shared vocabulary of the development: Rust's machine integers as words, Rust's
  \<open>Result\<close> type, the panics of the program as an error type threaded through a sum,
  and the generic lemmas on lists and words that the component theories share.
\<close>

unbundle bit_operations_syntax

section \<open>Machine integers\<close>

type_synonym u8 = "8 word"
type_synonym u16 = "16 word"
type_synonym u32 = "32 word"
type_synonym u64 = "64 word"
type_synonym i32 = "32 word" \<comment> \<open>read with \<open>sint\<close>\<close>

section \<open>Rust's Result and panics\<close>

text \<open>\<open>Result<T, E>\<close> with the source's constructor names.\<close>

datatype ('a, 'e) result = Ok 'a | Err 'e

primrec is_ok :: "('a, 'e) result \<Rightarrow> bool" where
  "is_ok (Ok x) = True"
| "is_ok (Err e) = False"

text \<open>
  A panic (an out-of-range index, an \<open>expect\<close> on a failed call) aborts the process.
  Every function that can panic returns \<open>panic + 'a\<close>, the panic on the left.
\<close>

datatype panic =
    IndexOutOfBounds
  | Expect string

definition pbind :: "panic + 'a \<Rightarrow> ('a \<Rightarrow> panic + 'b) \<Rightarrow> panic + 'b" where
  "pbind m f = (case m of Inl e \<Rightarrow> Inl e | Inr x \<Rightarrow> f x)"

lemma pbind_simps [simp]:
  "pbind (Inl e) f = Inl e"
  "pbind (Inr x) f = f x"
  by (simp_all add: pbind_def)

lemma pbind_eq_Inr:
  "pbind m f = Inr y \<longleftrightarrow> (\<exists>x. m = Inr x \<and> f x = Inr y)"
  by (cases m) simp_all

lemma pbind_eq_Inl:
  "pbind m f = Inl e \<longleftrightarrow> m = Inl e \<or> (\<exists>x. m = Inr x \<and> f x = Inl e)"
  by (cases m) simp_all

section \<open>Counted loops\<close>

text \<open>
  Rust's \<open>for i in 0..n { body }\<close> over a state: \<open>for_range\<close> when the body cannot
  panic, \<open>try_for_range\<close> when it can (the first panic ends the loop).
\<close>

definition for_range :: "nat \<Rightarrow> (nat \<Rightarrow> 's \<Rightarrow> 's) \<Rightarrow> 's \<Rightarrow> 's" where
  "for_range n body s = fold body [0..<n] s"

definition try_for_range :: "nat \<Rightarrow> (nat \<Rightarrow> 's \<Rightarrow> panic + 's) \<Rightarrow> 's \<Rightarrow> panic + 's" where
  "try_for_range n body s = fold (\<lambda>i r. pbind r (body i)) [0..<n] (Inr s)"

lemma for_range_0 [simp]: "for_range 0 body s = s"
  by (simp add: for_range_def)

lemma for_range_Suc [simp]: "for_range (Suc n) body s = body n (for_range n body s)"
  by (simp add: for_range_def)

lemma try_for_range_0 [simp]: "try_for_range 0 body s = Inr s"
  by (simp add: try_for_range_def)

lemma try_for_range_Suc [simp]:
  "try_for_range (Suc n) body s = pbind (try_for_range n body s) (body n)"
  by (simp add: try_for_range_def)

text \<open>A loop whose body cannot fail at the indices it visits does not panic.\<close>

lemma try_for_range_Inr:
  assumes "\<And>i. i < n \<Longrightarrow> body i = (\<lambda>s. Inr (f i s))"
  shows "try_for_range n body s = Inr (for_range n f s)"
  using assms by (induction n) simp_all

text \<open>Loop invariants indexed by the iteration count.\<close>

lemma for_range_rule:
  assumes "P 0 s"
    and "\<And>i s. i < n \<Longrightarrow> P i s \<Longrightarrow> P (Suc i) (body i s)"
  shows "P n (for_range n body s)"
  using assms by (induction n) simp_all

lemma try_for_range_rule:
  assumes "P 0 s"
    and "\<And>i s s'. i < n \<Longrightarrow> P i s \<Longrightarrow> body i s = Inr s' \<Longrightarrow> P (Suc i) s'"
    and "try_for_range n body s = Inr s'"
  shows "P n s'"
  using assms
proof (induction n arbitrary: s')
  case 0
  then show ?case by simp
next
  case (Suc n)
  from Suc.prems(3) obtain s'' where
    r: "try_for_range n body s = Inr s''" and b: "body n s'' = Inr s'"
    by (auto simp: pbind_eq_Inr)
  have "P n s''"
    using Suc.prems(1,2) r by (intro Suc.IH) auto
  then show ?case
    using Suc.prems(2) b by blast
qed

text \<open>A property every iteration keeps holds at the end of the loop.\<close>

lemma try_for_range_keeps:
  assumes "try_for_range n body s = Inr s'" and "Q s"
    and "\<And>i s s'. body i s = Inr s' \<Longrightarrow> Q s \<Longrightarrow> Q s'"
  shows "Q s'"
  using try_for_range_rule [where P = "\<lambda>_. Q"] assms by blast

lemma for_range_keeps:
  assumes "Q s" and "\<And>i s. Q s \<Longrightarrow> Q (body i s)"
  shows "Q (for_range n body s)"
  using for_range_rule [where P = "\<lambda>_. Q"] assms by blast

text \<open>A loop whose body panics only with \<open>E\<close> panics only with \<open>E\<close>; a panic in the first iteration ends it.\<close>

lemma try_for_range_Inl_rule:
  assumes "\<And>i s e. i < n \<Longrightarrow> body i s = Inl e \<Longrightarrow> e = E"
    and "try_for_range n body s = Inl e"
  shows "e = E"
  using assms
proof (induction n)
  case 0
  then show ?case by simp
next
  case (Suc n)
  from Suc.prems(2) consider "try_for_range n body s = Inl e"
    | x where "try_for_range n body s = Inr x" "body n x = Inl e"
    by (auto simp: pbind_eq_Inl)
  then show ?case
  proof cases
    case 1
    have "\<And>i s e. i < n \<Longrightarrow> body i s = Inl e \<Longrightarrow> e = E"
      using Suc.prems(1) less_SucI by blast
    then show ?thesis using Suc.IH 1 by blast
  next
    case 2
    then show ?thesis using Suc.prems(1) by blast
  qed
qed

lemma try_for_range_first_Inl:
  assumes "body 0 s = Inl e"
  shows "try_for_range (Suc n) body s = Inl e"
  using assms by (induction n) simp_all

text \<open>A panic within the first \<open>m\<close> iterations is the panic of the whole loop.\<close>

lemma try_for_range_Inl_mono:
  assumes "try_for_range m body s = Inl e" and "m \<le> n"
  shows "try_for_range n body s = Inl e"
  using assms(2)
proof (induction n)
  case 0
  then show ?case using assms(1) by simp
next
  case (Suc n)
  show ?case
  proof (cases "m = Suc n")
    case True
    then show ?thesis using assms(1) by simp
  next
    case False
    then show ?thesis using Suc by simp
  qed
qed

text \<open>A loop body that updates position \<open>i\<close> of a list and nothing else.\<close>

lemma length_for_range_update [simp]:
  "length (for_range n (\<lambda>i xs. xs[i := f i (xs ! i)]) xs) = length xs"
  by (induction n) simp_all

lemma for_range_update_nth:
  assumes "j < length xs"
  shows "for_range n (\<lambda>i xs. xs[i := f i (xs ! i)]) xs ! j = (if j < n then f j (xs ! j) else xs ! j)"
  using assms
proof (induction n arbitrary: j)
  case 0
  then show ?case by simp
next
  case (Suc n)
  show ?case
  proof (cases "j = n")
    case True
    with Suc.IH [of n] Suc.prems show ?thesis by simp
  next
    case False
    with Suc.IH [of j] Suc.prems show ?thesis by simp
  qed
qed

lemma for_range_update_map:
  assumes "length xs = n"
  shows "for_range n (\<lambda>i xs. xs[i := f (xs ! i)]) xs = map f xs"
proof (rule nth_equalityI)
  show "length (for_range n (\<lambda>i xs. xs[i := f (xs ! i)]) xs) = length (map f xs)"
    by (simp add: length_for_range_update [where f = "\<lambda>_. f"])
next
  fix j
  assume "j < length (for_range n (\<lambda>i xs. xs[i := f (xs ! i)]) xs)"
  then have "j < length xs"
    by (simp add: length_for_range_update [where f = "\<lambda>_. f"])
  then show "for_range n (\<lambda>i xs. xs[i := f (xs ! i)]) xs ! j = map f xs ! j"
    using assms by (simp add: for_range_update_nth [where f = "\<lambda>_. f"])
qed

section \<open>Collections of facts\<close>

text \<open>
  \<open>pin_simps\<close> collects the equations of the pin operations of the device model;
  \<open>frame_simps\<close> the facts that a loop leaves the part of the state it does not
  write unchanged.
\<close>

named_theorems pin_simps "equations of the pin operations"
named_theorems frame_simps "frame facts of the device loops"

section \<open>Lists updated by index\<close>

lemma map_nth_update_same:
  "i < length xs \<Longrightarrow> f (xs ! i) = xs ! i \<Longrightarrow> xs[i := f (xs ! i)] = xs"
  by simp

lemma map_update_nth_eq:
  assumes "i < length xs"
  shows "map g (xs[i := x]) = (map g xs)[i := g x]"
  by (simp add: map_update)

lemma upt_Suc_snoc:
  "[0..<Suc n] = [0..<n] @ [n]"
  by simp

section \<open>Words\<close>

text \<open>Doubling a 32-bit word and adding a bit does not wrap while the value is small.\<close>

lemma unat_shl1:
  fixes x :: u32
  assumes "unat x < 2 ^ 31"
  shows "unat (push_bit 1 x) = 2 * unat x"
proof -
  have "push_bit 1 x = x * 2"
    by simp
  moreover have "unat x * unat (2::u32) < 2 ^ LENGTH(32)"
    using assms by simp
  ultimately show ?thesis
    by (simp only: unat_mult_lem [THEN iffD1]) simp
qed

lemma unat_shl1_plus1:
  fixes x :: u32
  assumes "unat x < 2 ^ 31"
  shows "unat (push_bit 1 x + 1) = 2 * unat x + 1"
proof -
  have sh: "unat (push_bit 1 x) = 2 * unat x"
    using assms by (rule unat_shl1)
  have "unat (push_bit 1 x) + unat (1::u32) < 2 ^ LENGTH(32)"
    by (simp only: sh) (use assms in simp)
  then have "unat (push_bit 1 x + 1) = unat (push_bit 1 x) + unat (1::u32)"
    by (rule unat_add_lem [THEN iffD1])
  then show ?thesis
    by (simp only: sh) simp
qed

text \<open>A 64-bit poll counter at most \<open>1000000\<close> increments without wrapping.\<close>

lemma unat_poll_Suc:
  fixes p :: u64
  assumes "\<not> 1000000 < p"
  shows "unat (p + 1) = Suc (unat p)"
proof -
  have "unat p \<le> 1000000"
    using assms by (simp add: word_le_nat_alt not_less)
  then have "unat p + unat (1::u64) < 2 ^ LENGTH(64)"
    by simp
  then show ?thesis
    by (simp add: unat_add_lem [THEN iffD1])
qed

lemma unat_less_len: "unat (x::'a::len word) < 2 ^ LENGTH('a)"
  by simp

text \<open>A natural number below \<open>2^31\<close> is its own signed 32-bit value.\<close>

lemma sint_of_nat_i32: "n < 2 ^ 31 \<Longrightarrow> sint (of_nat n :: i32) = int n"
  by (simp add: signed_of_nat signed_take_bit_int_eq_self)

text \<open>Widening a word keeps its value.\<close>

lemma unat_ucast_up:
  fixes x :: "'a::len word"
  assumes "LENGTH('a) \<le> LENGTH('b)"
  shows "unat (ucast x :: 'b::len word) = unat x"
proof -
  have "unat x < 2 ^ LENGTH('a)"
    by (rule unat_less_len)
  also have "(2::nat) ^ LENGTH('a) \<le> 2 ^ LENGTH('b)"
    using assms by simp
  finally show ?thesis
    by (simp add: unsigned_ucast_eq take_bit_nat_eq_self_iff)
qed

end
