(* ===== verification/Hx711_Device.thy ===== *)
theory Hx711_Device
  imports Prelude
begin

text \<open>
  The \<open>Hx711\<close> struct of \<open>src/logging/src/load_cell.rs\<close> owns two GPIO lines: a clock
  output and a data input with a pull-up. What the data line reads depends on the
  HX711 chip at the other end, which the repository does not contain; it is modelled
  here from the wire protocol of the specification (\<section>6): the chip holds the data line
  high while a conversion is in progress, pulls it low when a result is ready, shifts
  the 24 bits of the result out most significant bit first, one on each rising clock
  edge, and after the 25th edge drives the line high again while it starts the next
  conversion. Time is counted in reads of the data line: a chip that is converting
  stays busy for a number of reads (\<open>conv_polls\<close>) and each read uses one of them up.
\<close>

section \<open>The device state\<close>

text \<open>
  \<open>clock_pin\<close> is the level the program drives on the clock line (the Rust field of the
  same name); \<open>conv_polls\<close>, \<open>edges\<close> and \<open>conv\<close> are the chip's state; \<open>pulses\<close>
  counts every rising edge on the clock line, as an oscilloscope on it would.
\<close>

record hx711 =
  clock_pin :: bool
  conv_polls :: nat
  edges :: nat
  pulses :: nat
  conv :: "24 word"

section \<open>The pin operations\<close>

text \<open>The level of the data line.\<close>

definition dout :: "hx711 \<Rightarrow> bool" where
  "dout d =
     (if 0 < conv_polls d then True
      else if edges d = 0 then False
      else if edges d \<le> 24 then bit (conv d) (24 - edges d)
      else True)"

text \<open>\<open>InputPin::is_high\<close> and \<open>InputPin::is_low\<close>: one read of the data line.\<close>

definition is_high :: "hx711 \<Rightarrow> bool \<times> hx711" where
  "is_high d = (dout d, d\<lparr>conv_polls := conv_polls d - 1\<rparr>)"

definition is_low :: "hx711 \<Rightarrow> bool \<times> hx711" where
  "is_low d = (\<not> dout d, d\<lparr>conv_polls := conv_polls d - 1\<rparr>)"

text \<open>
  \<open>OutputPin::set_high\<close> and \<open>OutputPin::set_low\<close>. A rising edge is one from low to
  high; the chip shifts on it only once its conversion is ready.
\<close>

definition set_high :: "hx711 \<Rightarrow> hx711" where
  "set_high d =
     d\<lparr>clock_pin := True,
       pulses := (if clock_pin d then pulses d else Suc (pulses d)),
       edges := (if \<not> clock_pin d \<and> conv_polls d = 0 then Suc (edges d) else edges d)\<rparr>"

definition set_low :: "hx711 \<Rightarrow> hx711" where
  "set_low d = d\<lparr>clock_pin := False\<rparr>"

text \<open>
  The chip starting a new conversion, with result \<open>v\<close>, ready after \<open>c\<close> reads: the
  environment's move between two frames.
\<close>

definition next_conversion :: "24 word \<Rightarrow> nat \<Rightarrow> hx711 \<Rightarrow> hx711" where
  "next_conversion v c d = d\<lparr>conv := v, conv_polls := c, edges := 0\<rparr>"

text \<open>A device between two frames: clock low, no bit of the current result shifted out.\<close>

definition idle :: "hx711 \<Rightarrow> bool" where
  "idle d \<longleftrightarrow> \<not> clock_pin d \<and> edges d = 0"

text \<open>\<open>Hx711::new\<close>: the clock line is driven low once the pins are claimed.\<close>

definition hx711_new :: "hx711 \<Rightarrow> hx711" where
  "hx711_new d = set_low d"

section \<open>Pin lemmas\<close>

lemma is_high_ready [pin_simps]:
  "conv_polls d = 0 \<Longrightarrow> is_high d = (dout d, d)"
  by (simp add: is_high_def)

lemma is_low_ready [pin_simps]:
  "conv_polls d = 0 \<Longrightarrow> is_low d = (\<not> dout d, d)"
  by (simp add: is_low_def)

lemma set_high_fields [pin_simps]:
  "clock_pin (set_high d) = True"
  "conv_polls (set_high d) = conv_polls d"
  "conv (set_high d) = conv d"
  "edges (set_high d) = (if \<not> clock_pin d \<and> conv_polls d = 0 then Suc (edges d) else edges d)"
  "pulses (set_high d) = (if clock_pin d then pulses d else Suc (pulses d))"
  by (simp_all add: set_high_def)

lemma set_low_fields [pin_simps]:
  "clock_pin (set_low d) = False"
  "conv_polls (set_low d) = conv_polls d"
  "conv (set_low d) = conv d"
  "edges (set_low d) = edges d"
  "pulses (set_low d) = pulses d"
  by (simp_all add: set_low_def)

text \<open>A read of the data line changes nothing but the chip's conversion time.\<close>

lemma is_high_frame [frame_simps]:
  "clock_pin (snd (is_high d)) = clock_pin d"
  "edges (snd (is_high d)) = edges d"
  "pulses (snd (is_high d)) = pulses d"
  "conv (snd (is_high d)) = conv d"
  by (simp_all add: is_high_def)

lemma is_low_frame [frame_simps]:
  "clock_pin (snd (is_low d)) = clock_pin d"
  "edges (snd (is_low d)) = edges d"
  "pulses (snd (is_low d)) = pulses d"
  "conv (snd (is_low d)) = conv d"
  by (simp_all add: is_low_def)

text \<open>A ready chip, the clock pulsed \<open>k \<le> 24\<close> times, presents bit \<open>24 - k\<close> of its result.\<close>

lemma dout_shifting:
  "conv_polls d = 0 \<Longrightarrow> 0 < edges d \<Longrightarrow> edges d \<le> 24 \<Longrightarrow>
   dout d = bit (conv d) (24 - edges d)"
  by (simp add: dout_def)

lemma dout_after_readout:
  "conv_polls d = 0 \<Longrightarrow> 24 < edges d \<Longrightarrow> dout d"
  by (simp add: dout_def)

end
