(* ===== verification/Load_Cell.thy ===== *)
theory Load_Cell
  imports Hx711_Device
begin

unbundle bit_operations_syntax

text \<open>
  The load-cell reader of \<open>src/logging/src/load_cell.rs\<close>: \<open>Hx711::read_multiple\<close>,
  which reads any number of HX711 chips in lock-step, and \<open>Hx711::read\<close>, which
  reads one. Each loop of the source is a \<open>for_range\<close>/\<open>try_for_range\<close> over the
  device indices, or a recursive function for the \<open>while\<close> loops; the vectors
  \<open>data\<close>, \<open>err\<close> and \<open>temp\<close> are lists, updated by index. The lemmas show what one
  call computes on every device, its failure isolation, the bounds of the 32-bit
  accumulator, the two's-complement decoding, and that the two readers agree.
\<close>

section \<open>The ready gate\<close>

text \<open>
  \<open>while data_pin.is_high() { if wait_polls[i] > 1000000 { err.push(i); break }
  wait_polls[i] += 1 }\<close>: the result says whether the device failed. \<open>Hx711::read\<close>
  has the same loop, with \<open>return Err(..)\<close> in place of \<open>err.push(i); break\<close>.
\<close>

function wait_ready :: "hx711 \<Rightarrow> u64 \<Rightarrow> bool \<times> hx711" where
  "wait_ready d p =
     (let (h, d') = is_high d in
      if \<not> h then (False, d')
      else if 1000000 < p then (True, d')
      else wait_ready d' (p + 1))"
  by pat_completeness auto

termination
proof (relation "measure (\<lambda>(d, p). 1000001 - unat p)")
  fix d :: hx711 and p :: u64 and hd
  assume "\<not> 1000000 < p"
  then have "unat (p + 1) = Suc (unat p)" and "unat p \<le> 1000000"
    by (simp_all add: unat_poll_Suc word_le_nat_alt not_less)
  then show "((hd, p + 1), d, p) \<in> measure (\<lambda>(d, p). 1000001 - unat p)"
    by simp
qed simp

declare wait_ready.simps [simp del]

text \<open>One pass of the gate: the body of \<open>for i in 0..devices.len()\<close>.\<close>

definition gate_body :: "nat \<Rightarrow> hx711 list \<times> nat list \<Rightarrow> hx711 list \<times> nat list" where
  "gate_body i st =
     (let (ds, err) = st; (failed, d') = wait_ready (ds ! i) 0
      in (ds[i := d'], if failed then err @ [i] else err))"

section \<open>The shift phase\<close>

text \<open>Driving every clock line high, or low: one loop each.\<close>

definition clock_all :: "(hx711 \<Rightarrow> hx711) \<Rightarrow> hx711 list \<Rightarrow> hx711 list" where
  "clock_all f ds = for_range (length ds) (\<lambda>i ds. ds[i := f (ds ! i)]) ds"

text \<open>
  A sampling pass: for each device not in \<open>err\<close>, read the data line and set
  \<open>temp[i] = 1\<close> if it is high. \<open>temp\<close> is a \<open>[u32; 24]\<close>: writing it at
  \<open>i \<ge> 24\<close> panics.
\<close>

definition sample_body ::
  "nat list \<Rightarrow> nat \<Rightarrow> hx711 list \<times> u32 list \<Rightarrow> panic + hx711 list \<times> u32 list" where
  "sample_body err i st =
     (let (ds, t) = st in
      if i \<in> set err then Inr (ds, t)
      else let (h, d') = is_high (ds ! i) in
           if h then (if i < length t then Inr (ds[i := d'], t[i := 1]) else Inl IndexOutOfBounds)
           else Inr (ds[i := d'], t))"

text \<open>\<open>data[i] <<= 1; if b { data[i] += 1 }\<close>: one bit shifted into an accumulator.\<close>

definition shift_in :: "bool \<Rightarrow> u32 \<Rightarrow> u32" where
  "shift_in b x = (if b then push_bit 1 x + 1 else push_bit 1 x)"

text \<open>
  The accumulating pass: \<open>data[i] <<= 1; if data_pin.is_high() || temp[i] > 0 {
  data[i] += 1 }\<close>. The \<open>||\<close> reads \<open>temp[i]\<close> only when the line is low.
\<close>

definition shift_body ::
  "nat list \<Rightarrow> u32 list \<Rightarrow> nat \<Rightarrow> hx711 list \<times> u32 list \<Rightarrow> panic + hx711 list \<times> u32 list" where
  "shift_body err t i st =
     (let (ds, data) = st in
      if i \<in> set err then Inr (ds, data)
      else let (h, d') = is_high (ds ! i) in
           if h then Inr (ds[i := d'], data[i := shift_in True (data ! i)])
           else if i < length t then Inr (ds[i := d'], data[i := shift_in (0 < t ! i) (data ! i)])
           else Inl IndexOutOfBounds)"

text \<open>One of the 24 iterations of the shift phase (\<open>for _i in 0..24\<close>).\<close>

definition shift_round ::
  "nat list \<Rightarrow> nat \<Rightarrow> hx711 list \<times> u32 list \<Rightarrow> panic + hx711 list \<times> u32 list" where
  "shift_round err k st =
     (let (ds, data) = st;
          n = length ds;
          ds1 = clock_all set_high ds;
          ds2 = clock_all set_low ds1 in
      pbind (try_for_range n (sample_body err) (ds2, replicate 24 0)) (\<lambda>(ds3, t1).
      pbind (try_for_range n (sample_body err) (ds3, t1)) (\<lambda>(ds4, t2).
      try_for_range n (shift_body err t2) (ds4, data))))"

section \<open>Validation and decoding\<close>

text \<open>After the 25th pulse a device whose data line reads low is marked failed.\<close>

definition validate_body :: "nat \<Rightarrow> hx711 list \<times> nat list \<Rightarrow> hx711 list \<times> nat list" where
  "validate_body i st =
     (let (ds, err) = st in
      if i \<in> set err then (ds, err)
      else let (l, d') = is_low (ds ! i) in (ds[i := d'], if l then err @ [i] else err))"

text \<open>
  The two's-complement decoding of the 24-bit accumulator, as the source writes it:
  \<open>data &= 0x7FFFFF; data ^= 0x7FFFFF; -((data + 1) as f64)\<close> when bit 23 is set.
  The division by \<open>2^23\<close> is exact in \<open>f64\<close> for every 24-bit code, so a real
  number models the reading without rounding.
\<close>

definition twos_complement :: "u32 \<Rightarrow> int" where
  "twos_complement x =
     (if 0 < x AND 0x800000
      then - int (unat (((x AND 0x7FFFFF) XOR 0x7FFFFF) + 1))
      else int (unat x))"

definition to_reading :: "u32 \<Rightarrow> real" where
  "to_reading x = real_of_int (twos_complement x) * 1 / 8388608"

text \<open>
  The re-encoding of a reading of the specification's round-trip law (\<section>8): scale by
  \<open>2^23\<close>, round, keep the low 24 bits. It is not in the source; the round-trip
  theorem uses it.
\<close>

definition encode_reading :: "real \<Rightarrow> u32" where
  "encode_reading r = word_of_int (round (r * 8388608)) AND 0xFFFFFF"

definition output_of :: "nat list \<Rightarrow> u32 list \<Rightarrow> nat \<Rightarrow> (real, string) result" where
  "output_of err data i = (if i \<in> set err then Err ''Read Error'' else Ok (to_reading (data ! i)))"

section \<open>\<open>Hx711::read_multiple\<close>\<close>

definition read_multiple :: "hx711 list \<Rightarrow> panic + (real, string) result list \<times> hx711 list" where
  "read_multiple ds =
     (let n = length ds;
          data0 = replicate n (0::u32);
          (ds1, err1) = for_range n gate_body (ds, []) in
      pbind (try_for_range 24 (shift_round err1) (ds1, data0)) (\<lambda>(ds2, data).
        let ds3 = clock_all set_high ds2;
            ds4 = clock_all set_low ds3;
            (ds5, err2) = for_range n validate_body (ds4, err1)
        in Inr (map (output_of err2 data) [0..<n], ds5)))"

section \<open>\<open>Hx711::read\<close>\<close>

text \<open>The 24 clock pulses of the single-device reader, on an \<open>i32\<close> accumulator.\<close>

primrec read_bits :: "nat \<Rightarrow> hx711 \<times> i32 \<Rightarrow> hx711 \<times> i32" where
  "read_bits 0 st = st"
| "read_bits (Suc k) st =
     (let (d, out) = read_bits k st;
          d1 = set_high d;
          out1 = push_bit 1 out;
          d2 = set_low d1;
          (h, d3) = is_high d2
      in (d3, if h then out1 + 1 else out1))"

definition read :: "hx711 \<Rightarrow> (i32, string) result \<times> hx711" where
  "read d =
     (let d0 = set_low d;
          (failed, d1) = wait_ready d0 0 in
      if failed then (Err ''HX711 device is not ready'', d1)
      else
        let (d2, out) = read_bits 24 (d1, 0);
            d3 = set_high d2;
            out' = (if 0 < out AND 0x800000
                    then (((out AND 0x7FFFFF) XOR 0x7FFFFF) + 1) * -1
                    else out);
            d4 = set_low d3;
            (l, d5) = is_low d4
        in if l then (Err ''HX711 read error'', d5) else (Ok out', d5))"

section \<open>Reference functions for one device\<close>

text \<open>
  What the shift phase does to one device and its accumulator: each of the 24 rounds
  gives the clock one pulse and shifts in the level the data line then shows.
\<close>

definition pulse :: "hx711 \<Rightarrow> hx711" where
  "pulse d = set_low (set_high d)"

primrec acc :: "nat \<Rightarrow> hx711 \<Rightarrow> u32 \<Rightarrow> u32" where
  "acc 0 d x = x"
| "acc (Suc k) d x = shift_in (dout ((pulse ^^ Suc k) d)) (acc k d x)"

text \<open>A device the gate gives up on: it stays busy for more than the poll budget.\<close>

definition stuck :: "hx711 \<Rightarrow> bool" where
  "stuck d \<longleftrightarrow> 1000001 < conv_polls d"

text \<open>What one channel of \<open>read_multiple\<close> should return for a device.\<close>

definition expected_reading :: "hx711 \<Rightarrow> (real, string) result" where
  "expected_reading d = (if stuck d then Err ''Read Error'' else Ok (real_of_int (sint (conv d)) / 2^23))"

section \<open>The two's-complement decoding\<close>

text \<open>The masks of the source, read as arithmetic on the unsigned value.\<close>

lemma unat_and_7FFFFF: "unat ((x::u32) AND 0x7FFFFF) = unat x mod 2^23"
proof -
  have "x AND 0x7FFFFF = take_bit 23 x"
    by (simp add: take_bit_eq_mask mask_eq_exp_minus_1)
  then show ?thesis
    by (simp add: unsigned_take_bit_eq take_bit_eq_mod unat_mod)
qed

lemma unat_xor_7FFFFF:
  assumes "unat (y::u32) < 2^23"
  shows "unat (y XOR 0x7FFFFF) = 0x7FFFFF - unat y"
proof -
  have m: "(0x7FFFFF::u32) = mask 23"
    by (simp add: mask_eq_exp_minus_1)
  have ty: "take_bit 23 y = y"
    using assms by (metis take_bit_nat_eq_self_iff unsigned_take_bit_eq word_unat_eq_iff)
  have "y XOR mask 23 = take_bit 23 (NOT y)"
  proof (rule bit_eqI)
    fix n
    show "bit (y XOR mask 23) n = bit (take_bit 23 (NOT y)) n"
      by (subst (1) ty [symmetric]) (auto simp: bit_simps)
  qed
  also have "\<dots> = mask 23 - take_bit 23 y"
    by (rule take_bit_not_eq_mask_diff)
  finally have "y XOR 0x7FFFFF = 0x7FFFFF - y"
    by (simp add: m ty)
  moreover have "y \<le> 0x7FFFFF"
    using assms by (simp add: word_le_nat_alt)
  ultimately show ?thesis
    by (simp add: unat_sub)
qed

text \<open>Bit 23 of a value below \<open>2^24\<close> is set exactly when the value is at least \<open>2^23\<close>.\<close>

lemma bit23_nat:
  assumes "(m::nat) < 2^24"
  shows "odd (m div 2^23) = (2^23 \<le> m)"
proof -
  have "m div 2^23 < 2"
    using assms by (simp add: less_mult_imp_div_less)
  then show ?thesis
    by (cases "m div 2^23 = 0") (auto simp: div_eq_0_iff)
qed

lemma sign_test_800000:
  assumes "unat (x::u32) < 2^24"
  shows "(0 < x AND 0x800000) = (2^23 \<le> unat x)"
proof -
  have e: "(0x800000::u32) = 2^23"
    by simp
  have b: "bit (0x800000::u32) n \<longleftrightarrow> n = 23" for n
    unfolding e bit_exp_iff by auto
  have "x AND 0x800000 = (if bit x 23 then 0x800000 else 0)"
  proof (rule bit_eqI)
    fix n
    have "bit (x AND 0x800000) n = (bit x n \<and> n = 23)"
      using b [of n] by (simp only: bit_and_iff)
    then show "bit (x AND 0x800000) n = bit (if bit x 23 then 0x800000 else 0 :: u32) n"
      using b [of n] by auto
  qed
  moreover have "bit x 23 = bit (unat x) 23"
    by (simp add: bit_unsigned_iff)
  moreover have "\<dots> = odd (unat x div 2^23)"
    by (rule bit_iff_odd)
  ultimately have "x AND 0x800000 = (if 2^23 \<le> unat x then 0x800000 else 0)"
    using bit23_nat [OF assms] by simp
  then show ?thesis
    by (simp add: word_greater_zero_iff)
qed

text \<open>\<open>sint\<close> of a 24-bit word, as arithmetic on its unsigned value.\<close>

lemma sint24_unat:
  "sint (c::24 word) = (if 2^23 \<le> unat c then int (unat c) - 2^24 else int (unat c))"
proof -
  have lt: "unat c < 2^24"
    using unsigned_less [of c] by simp
  have "bit (uint c) 23 = bit (unat c) 23"
    by (simp add: bit_unsigned_iff)
  also have "\<dots> = odd (unat c div 2^23)"
    by (rule bit_iff_odd)
  finally have bc: "bit (uint c) 23 = (2^23 \<le> unat c)"
    using bit23_nat [OF lt] by simp
  have "sint c = signed_take_bit 23 (uint c)"
    by (simp add: sint_uint)
  also have "\<dots> = take_bit 24 (uint c) - 2 ^ 24 * of_bool (bit (uint c) 23)"
    by (simp add: signed_take_bit_eq_take_bit_minus)
  also have "take_bit 24 (uint c) = uint c"
    by (rule bintr_uint) simp
  finally have s: "sint c = uint c - 2 ^ 24 * of_bool (bit (uint c) 23)" .
  show ?thesis
    using s bc by (cases "2^23 \<le> unat c") simp_all
qed

lemma twos_complement_arith:
  assumes "unat x < 2^24"
  shows "twos_complement x = (if 2^23 \<le> unat x then int (unat x) - 2^24 else int (unat x))"
proof (cases "2^23 \<le> unat x")
  case True
  let ?y = "x AND 0x7FFFFF"
  have "unat x mod 2^23 = unat x - 2^23"
    using True assms by (simp add: le_mod_geq)
  then have y: "unat ?y = unat x - 2^23"
    by (simp add: unat_and_7FFFFF)
  then have y23: "unat ?y < 2^23"
    using assms by simp
  have z: "unat (?y XOR 0x7FFFFF) = 0x7FFFFF - unat ?y"
    by (rule unat_xor_7FFFFF [OF y23])
  have "unat (?y XOR 0x7FFFFF) + unat (1::u32) < 2 ^ LENGTH(32)"
    by (simp only: z) simp
  then have "unat ((?y XOR 0x7FFFFF) + 1) = unat (?y XOR 0x7FFFFF) + unat (1::u32)"
    by (rule unat_add_lem [THEN iffD1])
  then have u: "unat ((?y XOR 0x7FFFFF) + 1) = 2^24 - unat x"
    using z y True assms by simp
  have b: "0 < x AND 0x800000"
    using sign_test_800000 [OF assms] True by simp
  show ?thesis
    using True assms by (simp add: twos_complement_def b u of_nat_diff)
next
  case False
  then show ?thesis
    using sign_test_800000 [OF assms] by (simp add: twos_complement_def)
qed

lemma unat_ucast_24 [simp]: "unat (ucast (c::24 word) :: u32) = unat c"
  by (rule unat_ucast_up) simp

text \<open>The decoding of the accumulator is \<open>sint\<close> of the 24 bits it holds.\<close>

lemma twos_complement_sint: "twos_complement (ucast c) = sint (c::24 word)"
proof -
  have "unat c < 2^24"
    using unsigned_less [of c] by simp
  then show ?thesis
    by (simp add: twos_complement_arith sint24_unat)
qed

text \<open>Writing back a decoded reading and masking it to 24 bits gives the accumulator again.\<close>

lemma encode_twos_complement:
  assumes "unat (x::u32) < 2^24"
  shows "(word_of_int (twos_complement x) AND 0xFFFFFF :: u32) = x"
proof -
  have m: "\<And>w::u32. w AND 0xFFFFFF = take_bit 24 w"
    by (simp add: take_bit_eq_mask mask_eq_exp_minus_1)
  have u: "uint x < 2^24"
    using assms by (metis of_nat_less_iff of_nat_numeral of_nat_power uint_nat)
  have t: "take_bit 24 (twos_complement x) = uint x"
    using assms u by (simp add: twos_complement_arith take_bit_eq_mod)
  have "uint (word_of_int (twos_complement x) AND 0xFFFFFF :: u32) = take_bit 24 (twos_complement x)"
    by (simp add: m unsigned_take_bit_eq uint_word_of_int_eq)
  then show ?thesis
    using t by (simp add: word_uint_eq_iff)
qed

text \<open>A code below \<open>2^24\<close> decodes into \<open>[-1, 1)\<close>.\<close>

lemma to_reading_bounds:
  assumes "unat x < 2 ^ 24"
  shows "-1 \<le> to_reading x \<and> to_reading x < 1"
proof -
  have g: "- 8388608 \<le> (if 2 ^ 23 \<le> u then int u - 2 ^ 24 else int u) \<and>
            (if 2 ^ 23 \<le> u then int u - 2 ^ 24 else int u) < 8388608" if "u < 2 ^ 24" for u :: nat
    using that by auto
  have "- 8388608 \<le> twos_complement x" and "twos_complement x < 8388608"
    using g [OF assms] by (simp_all only: twos_complement_arith [OF assms])
  then have "(-8388608::real) \<le> real_of_int (twos_complement x)"
    and "real_of_int (twos_complement x) < (8388608::real)"
    by linarith+
  then show ?thesis
    by (simp add: to_reading_def)
qed

section \<open>The phases of \<open>read_multiple\<close>\<close>

subsection \<open>The ready gate\<close>

text \<open>
  From poll count \<open>p\<close>, a chip that has not started its readout is read
  \<open>1000002 - p\<close> times at most: the gate succeeds if the conversion finishes within
  them and gives up otherwise.
\<close>

lemma wait_ready_eq:
  "edges d = 0 \<Longrightarrow> unat p \<le> 1000001 \<Longrightarrow> wait_ready d p =
     (if conv_polls d \<le> 1000001 - unat p then (False, d\<lparr>conv_polls := 0\<rparr>)
      else (True, d\<lparr>conv_polls := conv_polls d - (1000002 - unat p)\<rparr>))"
proof (induction d p rule: wait_ready.induct)
  case (1 d p)
  show ?case
  proof (cases "conv_polls d = 0")
    case True
    then show ?thesis using "1.prems" by (subst wait_ready.simps) (simp add: is_high_def dout_def)
  next
    case False
    then have h: "is_high d = (True, d\<lparr>conv_polls := conv_polls d - 1\<rparr>)"
      by (simp add: is_high_def dout_def)
    have e: "edges (d\<lparr>conv_polls := conv_polls d - 1\<rparr>) = 0" using "1.prems" by simp
    show ?thesis
    proof (cases "1000000 < p")
      case True
      then have "unat p = 1000001"
        using "1.prems"(2) by (simp add: word_less_nat_alt)
      then show ?thesis using False True by (subst wait_ready.simps) (simp add: h)
    next
      case np: False
      have u: "unat (p + 1) = Suc (unat p)" using np by (rule unat_poll_Suc)
      have le: "unat p \<le> 1000000" using np by (simp add: word_le_nat_alt not_less)
      have ih: "wait_ready (d\<lparr>conv_polls := conv_polls d - 1\<rparr>) (p + 1) =
        (if conv_polls d - 1 \<le> 1000001 - unat (p + 1) then (False, d\<lparr>conv_polls := 0\<rparr>)
         else (True, d\<lparr>conv_polls := conv_polls d - 1 - (1000002 - unat (p + 1))\<rparr>))"
        using "1.IH" [OF refl h [symmetric] _ np e] u le by simp
      have step: "wait_ready d p = wait_ready (d\<lparr>conv_polls := conv_polls d - 1\<rparr>) (p + 1)"
        using np by (subst wait_ready.simps) (simp add: h)
      show ?thesis
        using False le by (simp only: step ih u) auto
    qed
  qed
qed

lemma wait_ready_0:
  assumes "edges d = 0"
  shows "wait_ready d 0 = (stuck d, d\<lparr>conv_polls := (if stuck d then conv_polls d - 1000002 else 0)\<rparr>)"
  using wait_ready_eq [OF assms, of 0] by (auto simp: stuck_def)

lemma gate_loop:
  assumes "n \<le> length ds"
  shows "for_range n gate_body (ds, err) =
    (for_range n (\<lambda>i ds. ds[i := snd (wait_ready (ds ! i) 0)]) ds,
     err @ filter (\<lambda>i. fst (wait_ready (ds ! i) 0)) [0..<n])"
  using assms
proof (induction n)
  case 0
  show ?case by simp
next
  case (Suc n)
  have "for_range n (\<lambda>i ds. ds[i := snd (wait_ready (ds ! i) 0)]) ds ! n = ds ! n"
    using Suc.prems by (simp add: for_range_update_nth [where f = "\<lambda>_ d. snd (wait_ready d 0)"])
  then show ?case
    using Suc by (simp add: gate_body_def split: prod.splits)
qed

subsection \<open>The shift phase\<close>

text \<open>
  With every live device ready, a sampling pass reads each live data line and leaves
  the devices as they are; the accumulating pass shifts the line (or a \<open>temp\<close> flag
  already set) into the accumulator.
\<close>

lemma sample_loop:
  assumes "n \<le> length ds" and "length ds \<le> length t"
    and "\<forall>i<length ds. i \<notin> set err \<longrightarrow> conv_polls (ds ! i) = 0"
  shows "try_for_range n (sample_body err) (ds, t) =
    Inr (ds, for_range n (\<lambda>i t. t[i := (if i \<notin> set err \<and> dout (ds ! i) then 1 else t ! i)]) t)"
  using assms
proof (induction n)
  case 0
  show ?case by simp
next
  case (Suc n)
  let ?t = "for_range n (\<lambda>i t. t[i := (if i \<notin> set err \<and> dout (ds ! i) then 1 else t ! i)]) t"
  have len: "n < length ?t"
    using Suc.prems by (simp add: length_for_range_update [where f = "\<lambda>i x. if i \<notin> set err \<and> dout (ds ! i) then 1 else x"])
  have "sample_body err n (ds, ?t) = Inr (ds, ?t[n := (if n \<notin> set err \<and> dout (ds ! n) then 1 else ?t ! n)])"
    using Suc.prems len by (auto simp: sample_body_def is_high_ready)
  then show ?case
    using Suc by simp
qed

lemma shift_loop:
  assumes "n \<le> length ds" and "length ds \<le> length t" and "length data = length ds"
    and "\<forall>i<length ds. i \<notin> set err \<longrightarrow> conv_polls (ds ! i) = 0"
  shows "try_for_range n (shift_body err t) (ds, data) =
    Inr (ds, for_range n (\<lambda>i data. data[i := (if i \<notin> set err then shift_in (dout (ds ! i) \<or> 0 < t ! i) (data ! i) else data ! i)]) data)"
  using assms
proof (induction n)
  case 0
  show ?case by simp
next
  case (Suc n)
  let ?x = "for_range n (\<lambda>i data. data[i := (if i \<notin> set err then shift_in (dout (ds ! i) \<or> 0 < t ! i) (data ! i) else data ! i)]) data"
  have "shift_body err t n (ds, ?x) =
      Inr (ds, ?x[n := (if n \<notin> set err then shift_in (dout (ds ! n) \<or> 0 < t ! n) (?x ! n) else ?x ! n)])"
    using Suc.prems by (auto simp: shift_body_def is_high_ready)
  then show ?case
    using Suc by simp
qed

lemma clock_all_map: "clock_all f ds = map f ds"
  by (simp add: clock_all_def for_range_update_map)

lemma conv_polls_pulse [simp]: "conv_polls (pulse d) = conv_polls d"
  by (simp add: pulse_def pin_simps)

lemma shift_round_ready:
  assumes "length ds \<le> 24" and "length data = length ds"
    and ready: "\<forall>i<length ds. i \<notin> set err \<longrightarrow> conv_polls (ds ! i) = 0"
  shows "shift_round err k (ds, data) =
    Inr (map pulse ds,
         map (\<lambda>i. if i \<notin> set err then shift_in (dout (pulse (ds ! i))) (data ! i) else data ! i) [0..<length ds])"
proof -
  let ?n = "length ds"
  let ?ds = "map pulse ds"
  let ?c = "\<lambda>i. i \<notin> set err \<and> dout (?ds ! i)"
  let ?t1 = "for_range ?n (\<lambda>i t. t[i := (if ?c i then 1 else t ! i)]) (replicate 24 (0::u32))"
  let ?t2 = "for_range ?n (\<lambda>i t. t[i := (if ?c i then 1 else t ! i)]) ?t1"
  have r: "\<forall>i<length ?ds. i \<notin> set err \<longrightarrow> conv_polls (?ds ! i) = 0"
    using ready by simp
  have l1: "length ?t1 = 24"
    by (simp add: length_for_range_update [where f = "\<lambda>i x. if ?c i then 1 else x"])
  have l2: "length ?t2 = 24"
    using l1 by (simp add: length_for_range_update [where f = "\<lambda>i x. if ?c i then 1 else x"])
  have t1: "?t1 ! i = (if i < ?n \<and> ?c i then 1 else 0)" if "i < 24" for i
    using that by (simp add: for_range_update_nth [where f = "\<lambda>i x. if ?c i then 1 else x"])
  have t2: "?t2 ! i = ?t1 ! i" if "i < 24" for i
    using that l1 t1 by (simp add: for_range_update_nth [where f = "\<lambda>i x. if ?c i then 1 else x"])
  have s1: "try_for_range ?n (sample_body err) (?ds, replicate 24 0) = Inr (?ds, ?t1)"
    using assms(1) r by (simp add: sample_loop)
  have s2: "try_for_range ?n (sample_body err) (?ds, ?t1) = Inr (?ds, ?t2)"
    using assms(1) r l1 by (simp add: sample_loop)
  have s3: "try_for_range ?n (shift_body err ?t2) (?ds, data) =
    Inr (?ds, for_range ?n (\<lambda>i data. data[i := (if i \<notin> set err then shift_in (dout (?ds ! i) \<or> 0 < ?t2 ! i) (data ! i) else data ! i)]) data)"
    using assms(1,2) r l2 by (simp add: shift_loop)
  have eq: "for_range ?n (\<lambda>i data. data[i := (if i \<notin> set err then shift_in (dout (?ds ! i) \<or> 0 < ?t2 ! i) (data ! i) else data ! i)]) data
    = map (\<lambda>i. if i \<notin> set err then shift_in (dout (pulse (ds ! i))) (data ! i) else data ! i) [0..<?n]"
  proof (rule nth_equalityI)
    show "length (for_range ?n (\<lambda>i data. data[i := (if i \<notin> set err then shift_in (dout (?ds ! i) \<or> 0 < ?t2 ! i) (data ! i) else data ! i)]) data)
      = length (map (\<lambda>i. if i \<notin> set err then shift_in (dout (pulse (ds ! i))) (data ! i) else data ! i) [0..<?n])"
      using assms(2) by (simp add: length_for_range_update [where f = "\<lambda>i x. if i \<notin> set err then shift_in (dout (?ds ! i) \<or> 0 < ?t2 ! i) x else x"])
  next
    fix i
    assume "i < length (for_range ?n (\<lambda>i data. data[i := (if i \<notin> set err then shift_in (dout (?ds ! i) \<or> 0 < ?t2 ! i) (data ! i) else data ! i)]) data)"
    then have i: "i < ?n"
      using assms(2) by (simp add: length_for_range_update [where f = "\<lambda>i x. if i \<notin> set err then shift_in (dout (?ds ! i) \<or> 0 < ?t2 ! i) x else x"])
    then have "i < 24" using assms(1) by simp
    then have "(dout (?ds ! i) \<or> 0 < ?t2 ! i) = dout (?ds ! i)" if "i \<notin> set err"
      using i that t1 t2 by auto
    then show "for_range ?n (\<lambda>i data. data[i := (if i \<notin> set err then shift_in (dout (?ds ! i) \<or> 0 < ?t2 ! i) (data ! i) else data ! i)]) data ! i
      = map (\<lambda>i. if i \<notin> set err then shift_in (dout (pulse (ds ! i))) (data ! i) else data ! i) [0..<?n] ! i"
      using i assms(2) by (simp add: for_range_update_nth [where f = "\<lambda>i x. if i \<notin> set err then shift_in (dout (?ds ! i) \<or> 0 < ?t2 ! i) x else x"])
  qed
  have "clock_all set_low (clock_all set_high ds) = ?ds"
    by (simp add: clock_all_map pulse_def comp_def)
  then show ?thesis
    using s1 s2 s3 eq by (simp add: shift_round_def)
qed

lemma conv_polls_funpow_pulse [simp]: "conv_polls ((pulse ^^ k) d) = conv_polls d"
  by (induction k) simp_all

lemma shift_rounds_ready:
  assumes "length ds \<le> 24" and "length data = length ds"
    and ready: "\<forall>i<length ds. i \<notin> set err \<longrightarrow> conv_polls (ds ! i) = 0"
  shows "try_for_range k (shift_round err) (ds, data) =
    Inr (map (pulse ^^ k) ds,
         map (\<lambda>i. if i \<notin> set err then acc k (ds ! i) (data ! i) else data ! i) [0..<length ds])"
proof (induction k)
  case 0
  have "map (\<lambda>i. if i \<notin> set err then acc 0 (ds ! i) (data ! i) else data ! i) [0..<length ds] = data"
    by (rule nth_equalityI) (simp_all add: assms(2))
  then show ?case by simp
next
  case (Suc k)
  let ?ds = "map (pulse ^^ k) ds"
  let ?x = "map (\<lambda>i. if i \<notin> set err then acc k (ds ! i) (data ! i) else data ! i) [0..<length ds]"
  have "shift_round err k (?ds, ?x) =
    Inr (map pulse ?ds, map (\<lambda>i. if i \<notin> set err then shift_in (dout (pulse (?ds ! i))) (?x ! i) else ?x ! i) [0..<length ?ds])"
    using assms by (intro shift_round_ready) simp_all
  also have "\<dots> = Inr (map (pulse ^^ Suc k) ds,
      map (\<lambda>i. if i \<notin> set err then acc (Suc k) (ds ! i) (data ! i) else data ! i) [0..<length ds])"
    by simp
  finally show ?case
    using Suc.IH by simp
qed

text \<open>A ready device with its clock low: each pulse is one rising edge.\<close>

lemma pulse_funpow:
  assumes "\<not> clock_pin d" and "conv_polls d = 0"
  shows "(pulse ^^ k) d = d\<lparr>edges := edges d + k, pulses := pulses d + k\<rparr>"
  using assms by (induction k) (simp_all add: pulse_def set_high_def set_low_def)

lemma pulses_funpow_pulse:
  "\<not> clock_pin d \<Longrightarrow> pulses ((pulse ^^ k) d) = pulses d + k \<and> \<not> clock_pin ((pulse ^^ k) d)"
  by (induction k) (simp_all add: pulse_def pin_simps)

lemma unat_shift_in:
  assumes "unat x < 2^31"
  shows "unat (shift_in b x) = 2 * unat x + of_bool b"
proof (cases b)
  case True
  then have "shift_in b x = push_bit 1 x + 1"
    by (simp add: shift_in_def)
  then have "unat (shift_in b x) = unat (push_bit 1 x + 1)"
    by (rule arg_cong)
  also have "\<dots> = 2 * unat x + 1"
    by (rule unat_shl1_plus1 [OF assms])
  finally show ?thesis
    using True by simp
next
  case False
  then have "shift_in b x = push_bit 1 x"
    by (simp add: shift_in_def)
  then have "unat (shift_in b x) = unat (push_bit 1 x)"
    by (rule arg_cong)
  also have "\<dots> = 2 * unat x"
    by (rule unat_shl1 [OF assms])
  finally show ?thesis
    using False by simp
qed

lemma div_pow2_step:
  "2 * ((c::nat) div 2 ^ Suc m) + of_bool (odd (c div 2 ^ m)) = c div 2 ^ m"
proof -
  have "c div 2 ^ Suc m = c div 2 ^ m div 2"
    by (metis div_mult2_eq power_Suc2)
  then show ?thesis
    by simp
qed

lemma acc_ready:
  assumes "\<not> clock_pin d" and "conv_polls d = 0" and "edges d = 0" and "k \<le> 24"
  shows "unat (acc k d 0) = unat (conv d) div 2 ^ (24 - k)"
  using assms(4)
proof (induction k)
  case 0
  have "unat (conv d) < 2 ^ 24"
    using unsigned_less [of "conv d"] by simp
  then show ?case by simp
next
  case (Suc k)
  let ?m = "23 - k"
  have e: "24 - k = Suc ?m"
    using Suc.prems by simp
  have "unat (acc k d 0) = unat (conv d) div 2 ^ (24 - k)"
    using Suc by simp
  then have ih: "unat (acc k d 0) = unat (conv d) div 2 ^ Suc ?m"
    by (simp only: e)
  have c24: "unat (conv d) < 2 ^ 24"
    using unsigned_less [of "conv d"] by simp
  have "unat (conv d) div 2 ^ Suc ?m < 2 ^ 24"
    using div_le_dividend c24 by (rule le_less_trans)
  then have "unat (conv d) div 2 ^ Suc ?m < 2 ^ 31"
    by (rule less_le_trans) simp
  then have small: "unat (acc k d 0) < 2 ^ 31"
    using ih by simp
  have "(pulse ^^ Suc k) d = d\<lparr>edges := edges d + Suc k, pulses := pulses d + Suc k\<rparr>"
    by (rule pulse_funpow [OF assms(1,2)])
  then have "dout ((pulse ^^ Suc k) d) = dout (d\<lparr>edges := edges d + Suc k, pulses := pulses d + Suc k\<rparr>)"
    by (rule arg_cong)
  also have "\<dots> = bit (conv d) ?m"
    using assms(2,3) Suc.prems by (simp add: dout_def)
  also have "\<dots> = bit (unat (conv d)) ?m"
    by (simp add: bit_unsigned_iff)
  also have "\<dots> = odd (unat (conv d) div 2 ^ ?m)"
    by (rule bit_iff_odd)
  finally have b: "dout ((pulse ^^ Suc k) d) = odd (unat (conv d) div 2 ^ ?m)" .
  have "unat (acc (Suc k) d 0) = 2 * (unat (conv d) div 2 ^ Suc ?m) + of_bool (odd (unat (conv d) div 2 ^ ?m))"
    using small ih b by (simp add: unat_shift_in)
  also have "\<dots> = unat (conv d) div 2 ^ ?m"
    by (rule div_pow2_step)
  finally show ?case
    using Suc.prems by simp
qed

lemma acc_24:
  assumes "\<not> clock_pin d" and "conv_polls d = 0" and "edges d = 0"
  shows "acc 24 d 0 = ucast (conv d)"
proof -
  have "unat (acc 24 d 0) = unat (conv d)"
    using acc_ready [OF assms, of 24] by simp
  then show ?thesis
    by (simp add: word_unat_eq_iff)
qed

subsection \<open>Validation and the whole call\<close>

lemma validate_loop_ready:
  assumes "n \<le> length ds" and "\<forall>i<n. i \<notin> set err \<longrightarrow> conv_polls (ds ! i) = 0 \<and> dout (ds ! i)"
  shows "for_range n validate_body (ds, err) = (ds, err)"
  using assms by (induction n) (auto simp: validate_body_def is_low_ready)

lemma gated_idle:
  assumes "idle d"
  shows "edges (snd (wait_ready d 0)) = 0" and "\<not> clock_pin (snd (wait_ready d 0))"
    and "conv (snd (wait_ready d 0)) = conv d" and "pulses (snd (wait_ready d 0)) = pulses d"
    and "\<not> stuck d \<Longrightarrow> conv_polls (snd (wait_ready d 0)) = 0"
    and "fst (wait_ready d 0) = stuck d"
  using assms by (simp_all add: wait_ready_0 idle_def)

lemma read_multiple_idle:
  assumes "length ds \<le> 24" and idle: "\<forall>d\<in>set ds. idle d"
  shows "read_multiple ds =
    Inr (map expected_reading ds, map (\<lambda>d. (pulse ^^ 25) (snd (wait_ready d 0))) ds)"
proof -
  let ?n = "length ds"
  let ?g = "\<lambda>d. snd (wait_ready d 0)"
  let ?ds1 = "map ?g ds"
  let ?err = "filter (\<lambda>i. stuck (ds ! i)) [0..<?n]"
  let ?data = "map (\<lambda>i. if i \<notin> set ?err then acc 24 (?ds1 ! i) (replicate ?n 0 ! i) else replicate ?n 0 ! i) [0..<?n]"
  have idle_i: "idle (ds ! i)" if "i < ?n" for i
    using idle that by simp
  have gate: "for_range ?n gate_body (ds, []) = (?ds1, ?err)"
  proof -
    have "filter (\<lambda>i. fst (wait_ready (ds ! i) 0)) [0..<?n] = ?err"
      using gated_idle(6) [OF idle_i] by (intro filter_cong) simp_all
    then show ?thesis
      using gate_loop [of ?n ds "[]"] for_range_update_map [where xs = ds and n = ?n and f = ?g] by simp
  qed
  have ready1: "\<forall>i<length ?ds1. i \<notin> set ?err \<longrightarrow> conv_polls (?ds1 ! i) = 0"
    using gated_idle(5) [OF idle_i] by simp
  have rounds: "try_for_range 24 (shift_round ?err) (?ds1, replicate ?n 0) = Inr (map (pulse ^^ 24) ?ds1, ?data)"
    using shift_rounds_ready [of ?ds1 "replicate ?n 0" ?err 24] assms(1) ready1 by simp
  have clocks: "clock_all set_low (clock_all set_high (map (pulse ^^ 24) ?ds1)) = map (pulse ^^ 25) ?ds1"
  proof -
    have "(pulse ^^ 25) d = pulse ((pulse ^^ 24) d)" for d
      by (simp add: eval_nat_numeral)
    then show ?thesis
      by (simp add: clock_all_map pulse_def)
  qed
  have after: "(pulse ^^ 25) (?ds1 ! i) = (?ds1 ! i)\<lparr>edges := 25, pulses := pulses (ds ! i) + 25\<rparr>"
    if "i < ?n" "\<not> stuck (ds ! i)" for i
    using pulse_funpow [of "?ds1 ! i" 25] gated_idle [OF idle_i [OF that(1)]] that by simp
  have val: "for_range ?n validate_body (map (pulse ^^ 25) ?ds1, ?err) = (map (pulse ^^ 25) ?ds1, ?err)"
  proof (rule validate_loop_ready)
    show "\<forall>i<?n. i \<notin> set ?err \<longrightarrow> conv_polls (map (pulse ^^ 25) ?ds1 ! i) = 0 \<and> dout (map (pulse ^^ 25) ?ds1 ! i)"
      using after gated_idle(5) [OF idle_i] by (auto simp: dout_def)
  qed simp
  have outs: "map (output_of ?err ?data) [0..<?n] = map expected_reading ds"
  proof (rule nth_equalityI)
    fix i
    assume "i < length (map (output_of ?err ?data) [0..<?n])"
    then have i: "i < ?n" by simp
    have "acc 24 (?ds1 ! i) 0 = ucast (conv (ds ! i))" if "\<not> stuck (ds ! i)"
      using acc_24 [of "?ds1 ! i"] gated_idle [OF idle_i [OF i]] i that by simp
    then show "map (output_of ?err ?data) [0..<?n] ! i = map expected_reading ds ! i"
      using i by (simp add: output_of_def expected_reading_def to_reading_def twos_complement_sint)
  qed simp
  show ?thesis
    using gate rounds clocks val outs by (simp add: read_multiple_def)
qed

subsection \<open>The shape of the result\<close>

text \<open>Every pass of a shift round keeps the number of devices and of accumulators.\<close>

lemma shift_round_lengths:
  assumes "shift_round err k (ds, data) = Inr (ds', data')"
  shows "length ds' = length ds \<and> length data' = length data"
proof -
  let ?Q = "\<lambda>(a::hx711 list, b::u32 list). length a = length ds"
  have sb: "sample_body err i s = Inr s' \<Longrightarrow> ?Q s \<Longrightarrow> ?Q s'" for i s s'
    by (cases s) (auto simp: sample_body_def split: if_splits prod.splits)
  have hb: "shift_body err t i s = Inr s' \<Longrightarrow> length (fst s) = length ds \<and> length (snd s) = length data \<Longrightarrow>
            length (fst s') = length ds \<and> length (snd s') = length data" for t i s s'
    by (cases s) (auto simp: shift_body_def split: if_splits prod.splits)
  obtain ds3 t1 ds4 t2 where
    s1: "try_for_range (length ds) (sample_body err) (map pulse ds, replicate 24 0) = Inr (ds3, t1)" and
    s2: "try_for_range (length ds) (sample_body err) (ds3, t1) = Inr (ds4, t2)" and
    s3: "try_for_range (length ds) (shift_body err t2) (ds4, data) = Inr (ds', data')"
  proof -
    have "clock_all set_low (clock_all set_high ds) = map pulse ds"
      by (simp add: clock_all_map pulse_def comp_def)
    then show ?thesis
      using assms that by (auto simp: shift_round_def Let_def pbind_eq_Inr split: prod.splits)
  qed
  have "length ds3 = length ds"
    using try_for_range_keeps [OF s1, where Q = ?Q] sb by simp
  moreover have "length ds4 = length ds"
    using try_for_range_keeps [OF s2, where Q = ?Q] sb calculation by simp
  ultimately show ?thesis
    using try_for_range_keeps [OF s3, where Q = "\<lambda>s. length (fst s) = length ds \<and> length (snd s) = length data"] hb
    by simp
qed

text \<open>What a call that does not panic has computed, phase by phase.\<close>

lemma read_multiple_Inr:
  assumes "read_multiple ds = Inr (out, ds')"
  obtains ds1 err1 ds2 data err2 where
    "for_range (length ds) gate_body (ds, []) = (ds1, err1)"
    "try_for_range 24 (shift_round err1) (ds1, replicate (length ds) 0) = Inr (ds2, data)"
    "for_range (length ds) validate_body (clock_all set_low (clock_all set_high ds2), err1) = (ds', err2)"
    "out = map (output_of err2 data) [0..<length ds]"
proof -
  let ?n = "length ds"
  obtain ds1 err1 where g: "for_range ?n gate_body (ds, []) = (ds1, err1)"
    by (cases "for_range ?n gate_body (ds, [])")
  let ?k = "\<lambda>(ds2, data). case for_range ?n validate_body (clock_all set_low (clock_all set_high ds2), err1) of
                  (ds5, err2) \<Rightarrow> (Inr (map (output_of err2 data) [0..<?n], ds5) ::
                                     panic + (real, string) result list \<times> hx711 list)"
  have "pbind (try_for_range 24 (shift_round err1) (ds1, replicate ?n 0)) ?k = Inr (out, ds')"
    using assms g by (simp add: read_multiple_def Let_def)
  then obtain x where r0: "try_for_range 24 (shift_round err1) (ds1, replicate ?n 0) = Inr x"
    and k: "?k x = Inr (out, ds')"
    unfolding pbind_eq_Inr by blast
  obtain ds2 data where x: "x = (ds2, data)" by (cases x)
  obtain ds5 err2 where v: "for_range ?n validate_body (clock_all set_low (clock_all set_high ds2), err1) = (ds5, err2)"
    by (cases "for_range ?n validate_body (clock_all set_low (clock_all set_high ds2), err1)")
  have "out = map (output_of err2 data) [0..<?n] \<and> ds' = ds5"
    using k unfolding x by (simp only: prod.case v sum.inject prod.inject)
  then show ?thesis
    using that g r0 x v by blast
qed

subsection \<open>The accumulator stays within 24 bits\<close>

text \<open>
  Whatever the data lines show, each round shifts every accumulator at most once, so
  after \<open>k\<close> rounds from 0 each holds fewer than \<open>k\<close> bits: the \<open>u32\<close> never
  overflows and its top 8 bits stay clear.
\<close>

lemma shift_pass_bound:
  assumes "try_for_range n (shift_body err t) (ds, data) = Inr (ds', data')"
    and "\<forall>x\<in>set data. unat x < 2 ^ m" and "m \<le> 31"
  shows "\<forall>x\<in>set data'. unat x < 2 ^ Suc m"
proof -
  let ?P = "\<lambda>j (a::hx711 list, b::u32 list). length b = length data \<and>
              (\<forall>i<length b. unat (b ! i) < 2 ^ Suc m \<and> (j \<le> i \<longrightarrow> b ! i = data ! i))"
  have "?P n (ds', data')"
  proof (rule try_for_range_rule [where P = ?P, OF _ _ assms(1)])
    show "?P 0 (ds, data)"
      using assms(2) by (auto simp: all_set_conv_all_nth)
  next
    fix j s s'
    assume "j < n" and p: "?P j s" and b: "shift_body err t j s = Inr s'"
    obtain a b0 where s: "s = (a, b0)" by (cases s)
    have dj: "unat (b0 ! j) < 2 ^ m" if "j < length b0"
      using p s that assms(2) by (auto simp: all_set_conv_all_nth)
    have sh: "unat (shift_in c (b0 ! j)) < 2 ^ Suc m" if "j < length b0" for c
    proof -
      have "(2::nat) ^ m \<le> 2 ^ 31"
        using assms(3) by (rule power_increasing) simp
      then have "unat (b0 ! j) < 2 ^ 31"
        using dj [OF that] by (rule less_le_trans [rotated])
      then have "unat (shift_in c (b0 ! j)) = 2 * unat (b0 ! j) + of_bool c"
        by (rule unat_shift_in)
      then show ?thesis
        using dj [OF that] by simp
    qed
    have pb: "length b0 = length data" "\<forall>i<length b0. unat (b0 ! i) < 2 ^ Suc m \<and> (j \<le> i \<longrightarrow> b0 ! i = data ! i)"
      using p s by simp_all
    have upd: "\<forall>i<length b0. unat (b0[j := shift_in c (b0 ! j)] ! i) < 2 ^ Suc m \<and>
                 (Suc j \<le> i \<longrightarrow> b0[j := shift_in c (b0 ! j)] ! i = b0 ! i)" for c
    proof (intro allI impI)
      fix i
      assume i: "i < length b0"
      show "unat (b0[j := shift_in c (b0 ! j)] ! i) < 2 ^ Suc m \<and>
            (Suc j \<le> i \<longrightarrow> b0[j := shift_in c (b0 ! j)] ! i = b0 ! i)"
      proof (cases "i = j")
        case True
        then show ?thesis using i sh [of c] by simp
      next
        case False
        then show ?thesis using i pb(2) by simp
      qed
    qed
    show "?P (Suc j) s'"
      using b s pb upd by (cases s') (auto simp: shift_body_def split: if_splits prod.splits)
  qed
  then show ?thesis
    by (auto simp: all_set_conv_all_nth)
qed


lemma shift_round_bound:
  assumes "shift_round err k (ds, data) = Inr (ds', data')"
    and "\<forall>x\<in>set data. unat x < 2 ^ m" and "m \<le> 31"
  shows "\<forall>x\<in>set data'. unat x < 2 ^ Suc m"
proof -
  obtain s3 t2 where "try_for_range (length ds) (shift_body err t2) s3 = Inr (ds', data')"
    and "snd s3 = data"
    using assms(1) by (auto simp: shift_round_def Let_def pbind_eq_Inr split: prod.splits)
  then show ?thesis
    using shift_pass_bound [of "length ds" err t2 "fst s3" data ds' data' m] assms(2,3) by (cases s3) simp
qed

lemma shift_rounds_bound:
  assumes "try_for_range 24 (shift_round err) (ds, replicate n 0) = Inr (ds', data)"
  shows "\<forall>x\<in>set data. unat x < 2 ^ 24"
proof -
  have "(\<lambda>k (a::hx711 list, b::u32 list). \<forall>x\<in>set b. unat x < 2 ^ k) 24 (ds', data)"
  proof (rule try_for_range_rule [OF _ _ assms])
    show "case (ds, replicate n (0::u32)) of (a, b) \<Rightarrow> \<forall>x\<in>set b. unat x < 2 ^ 0"
      by simp
  next
    fix k s s'
    assume "k < 24" and "case s of (a, b) \<Rightarrow> \<forall>x\<in>set b. unat x < 2 ^ k" and "shift_round err k s = Inr s'"
    then show "case s' of (a, b) \<Rightarrow> \<forall>x\<in>set b. unat x < 2 ^ Suc k"
      using shift_round_bound [of err k "fst s" "snd s" "fst s'" "snd s'" k] by (cases s, cases s') simp
  qed
  then show ?thesis by simp
qed

subsection \<open>More than 24 live channels\<close>

text \<open>
  Channel 24 indexes \<open>temp\<close>, a \<open>[u32; 24]\<close>: a sampling pass panics on it if its
  line is high, the accumulating pass if it is low. Every panic of the shift phase is
  an out-of-range index.
\<close>

lemma sample_pass_24:
  assumes "try_for_range n (sample_body err) (ds, t) = Inr (ds', t')"
    and "length t = 24" and "24 < length ds" and "24 < n"
    and "24 \<notin> set err" and "conv_polls (ds ! 24) = 0"
  shows "length t' = 24 \<and> length ds' = length ds \<and> ds' ! 24 = ds ! 24 \<and> \<not> dout (ds ! 24)"
proof -
  let ?P = "\<lambda>i (a, b). length b = 24 \<and> length a = length ds \<and> a ! 24 = ds ! 24 \<and>
                       (24 < (i::nat) \<longrightarrow> \<not> dout (ds ! 24))"
  have "?P n (ds', t')"
  proof (rule try_for_range_rule [where P = ?P, OF _ _ assms(1)])
    show "?P 0 (ds, t)" using assms(2) by simp
  next
    fix i s s'
    assume "i < n" and "?P i s" "sample_body err i s = Inr s'"
    then show "?P (Suc i) s'"
    proof (cases "i = 24")
      case True
      then show ?thesis using \<open>?P i s\<close> \<open>sample_body err i s = Inr s'\<close> assms(3,5,6)
        by (cases s) (auto simp: sample_body_def is_high_ready split: if_splits)
    next
      case False
      then show ?thesis using \<open>?P i s\<close> \<open>sample_body err i s = Inr s'\<close>
        by (cases s) (auto simp: sample_body_def split: if_splits prod.splits)
    qed
  qed
  then show ?thesis using assms(4) by simp
qed

lemma shift_pass_24:
  assumes "try_for_range n (shift_body err t) (ds, data) = Inr r"
    and "length t = 24" and "24 < length ds" and "24 < n"
    and "24 \<notin> set err" and "conv_polls (ds ! 24) = 0"
  shows "dout (ds ! 24)"
proof -
  let ?P = "\<lambda>i (a::hx711 list, b::u32 list). length a = length ds \<and> a ! 24 = ds ! 24 \<and>
                       (24 < (i::nat) \<longrightarrow> dout (ds ! 24))"
  have "?P n r"
  proof (rule try_for_range_rule [where P = ?P, OF _ _ assms(1)])
    show "?P 0 (ds, data)" by simp
  next
    fix i s s'
    assume "i < n" and "?P i s" "shift_body err t i s = Inr s'"
    then show "?P (Suc i) s'"
    proof (cases "i = 24")
      case True
      then show ?thesis using \<open>?P i s\<close> \<open>shift_body err t i s = Inr s'\<close> assms(2,3,5,6)
        by (cases s) (auto simp: shift_body_def is_high_ready split: if_splits)
    next
      case False
      then show ?thesis using \<open>?P i s\<close> \<open>shift_body err t i s = Inr s'\<close>
        by (cases s) (auto simp: shift_body_def split: if_splits prod.splits)
    qed
  qed
  then show ?thesis using assms(4) by (cases r) simp
qed


lemma sample_body_Inl: "sample_body err i s = Inl e \<Longrightarrow> e = IndexOutOfBounds"
  by (cases s) (auto simp: sample_body_def split: if_splits prod.splits)

lemma shift_body_Inl: "shift_body err t i s = Inl e \<Longrightarrow> e = IndexOutOfBounds"
  by (cases s) (auto simp: shift_body_def split: if_splits prod.splits)

lemma shift_round_Inl:
  assumes "shift_round err k s = Inl e"
  shows "e = IndexOutOfBounds"
proof -
  have p: "try_for_range n (sample_body err) s0 = Inl e \<Longrightarrow> e = IndexOutOfBounds" for n s0 e
    by (rule try_for_range_Inl_rule [where body = "sample_body err"]) (auto dest: sample_body_Inl)
  have q: "try_for_range n (shift_body err t) s0 = Inl e \<Longrightarrow> e = IndexOutOfBounds" for n t s0 e
    by (rule try_for_range_Inl_rule [where body = "shift_body err t"]) (auto dest: shift_body_Inl)
  show ?thesis
    using assms p q by (cases s) (auto simp: shift_round_def Let_def pbind_eq_Inl split: prod.splits)
qed

lemma shift_round_channel_24:
  assumes "24 < length ds" and "24 \<notin> set err" and "conv_polls (ds ! 24) = 0"
  shows "shift_round err k (ds, data) = Inl IndexOutOfBounds"
proof -
  let ?ds2 = "map pulse ds"
  have c: "clock_all set_low (clock_all set_high ds) = ?ds2"
    by (simp add: clock_all_map pulse_def comp_def)
  have l2: "length ?ds2 = length ds" and p2: "conv_polls (?ds2 ! 24) = 0"
    using assms(1,3) by simp_all
  have "\<not> (\<exists>r. shift_round err k (ds, data) = Inr r)"
  proof
    assume "\<exists>r. shift_round err k (ds, data) = Inr r"
    then obtain r ds3 t1 ds4 t2 where
      s1: "try_for_range (length ds) (sample_body err) (?ds2, replicate 24 0) = Inr (ds3, t1)" and
      s2: "try_for_range (length ds) (sample_body err) (ds3, t1) = Inr (ds4, t2)" and
      s3: "try_for_range (length ds) (shift_body err t2) (ds4, data) = Inr r"
      by (auto simp: shift_round_def c Let_def pbind_eq_Inr split: prod.splits)
    have a1: "length t1 = 24 \<and> length ds3 = length ds \<and> ds3 ! 24 = ?ds2 ! 24 \<and> \<not> dout (?ds2 ! 24)"
      using sample_pass_24 [OF s1] assms(1,2) p2 by simp
    have a2: "length t2 = 24 \<and> length ds4 = length ds3 \<and> ds4 ! 24 = ds3 ! 24"
      using sample_pass_24 [OF s2] a1 assms(1,2) p2 by simp
    have "dout (ds4 ! 24)"
      using shift_pass_24 [OF s3] a1 a2 assms(1,2) p2 by simp
    then show False using a1 a2 by simp
  qed
  then show ?thesis
    using shift_round_Inl [of err k "(ds, data)"] by (cases "shift_round err k (ds, data)") auto
qed

subsection \<open>The single-device reader\<close>

text \<open>\<open>read_bits\<close> is the reference accumulator \<open>acc\<close> on a ready device.\<close>

lemma read_bits_acc:
  assumes "conv_polls d = 0"
  shows "read_bits k (d, x) = ((pulse ^^ k) d, acc k d x)"
proof (induction k)
  case 0
  then show ?case by simp
next
  case (Suc k)
  have c: "conv_polls (pulse ((pulse ^^ k) d)) = 0"
    using assms by simp
  have "is_high (set_low (set_high ((pulse ^^ k) d))) = (dout ((pulse ^^ Suc k) d), (pulse ^^ Suc k) d)"
    using is_high_ready [OF c] by (simp add: pulse_def)
  then show ?case
    using Suc by (simp add: shift_in_def)
qed

text \<open>The \<open>i32\<close> decoding of \<open>read\<close> is the two's-complement value, wrapped to 32 bits.\<close>

lemma read_decode:
  "(if 0 < out AND 0x800000 then (((out AND 0x7FFFFF) XOR 0x7FFFFF) + 1) * -1 else out) =
   (word_of_int (twos_complement out) :: i32)"
  by (simp add: twos_complement_def)

lemma sint_i32_of_sint24: "sint (scast (c::24 word) :: i32) = sint c"
  by (rule sint_up_scast) (simp add: is_up)

lemma read_eq:
  assumes "edges d = 0"
  shows "read d =
    (if stuck d then (Err ''HX711 device is not ready'', (set_low d)\<lparr>conv_polls := conv_polls d - 1000002\<rparr>)
     else (Ok (word_of_int (sint (conv d))), (pulse ^^ 25) ((set_low d)\<lparr>conv_polls := 0\<rparr>)))"
proof (cases "stuck d")
  case True
  have "wait_ready (set_low d) 0 = (True, (set_low d)\<lparr>conv_polls := conv_polls d - 1000002\<rparr>)"
    using wait_ready_0 [of "set_low d"] assms True by (simp add: pin_simps stuck_def)
  then show ?thesis
    using True by (simp add: read_def)
next
  case False
  let ?d1 = "(set_low d)\<lparr>conv_polls := 0\<rparr>"
  have w: "wait_ready (set_low d) 0 = (False, ?d1)"
    using wait_ready_0 [of "set_low d"] assms False by (simp add: pin_simps stuck_def)
  have c: "conv_polls ?d1 = 0" and k: "\<not> clock_pin ?d1" and e: "edges ?d1 = 0"
    using assms by (simp_all add: pin_simps)
  have rb: "read_bits 24 (?d1, 0) = ((pulse ^^ 24) ?d1, ucast (conv d))"
    using read_bits_acc [OF c] acc_24 [OF k c e] by (simp add: pin_simps)
  have p25: "set_low (set_high ((pulse ^^ 24) ?d1)) = (pulse ^^ 25) ?d1"
    by (simp add: pulse_def eval_nat_numeral)
  have f: "(pulse ^^ 25) ?d1 = ?d1\<lparr>edges := 25, pulses := pulses d + 25\<rparr>"
    using pulse_funpow [OF k c] assms by (simp add: pin_simps)
  have l: "is_low ((pulse ^^ 25) ?d1) = (False, (pulse ^^ 25) ?d1)"
    using f by (simp add: is_low_def dout_def)
  show ?thesis
    using False w rb p25 l
    by (simp add: read_def read_decode twos_complement_sint)
qed


section \<open>Properties of the acquisition\<close>

text \<open>
  C4: the shape of a call. Whatever the devices do, a call that does not panic returns
  one result per device and gives every device back: \<open>output\<close> is pushed once per
  index and no loop adds or drops a device.
\<close>

theorem read_multiple_lengths:
  assumes "read_multiple ds = Inr (out, ds')"
  shows "length out = length ds \<and> length ds' = length ds"
proof -
  let ?n = "length ds"
  obtain ds1 err1 ds2 data err2 where g: "for_range ?n gate_body (ds, []) = (ds1, err1)"
    and r: "try_for_range 24 (shift_round err1) (ds1, replicate ?n 0) = Inr (ds2, data)"
    and v: "for_range ?n validate_body (clock_all set_low (clock_all set_high ds2), err1) = (ds', err2)"
    and o: "out = map (output_of err2 data) [0..<?n]"
    by (rule read_multiple_Inr [OF assms])
  have gb: "length (fst (gate_body i s)) = length (fst s)" for i s
    by (cases s) (simp add: gate_body_def split: prod.splits)
  have l1: "length ds1 = ?n"
    using for_range_keeps [where Q = "\<lambda>s. length (fst s) = ?n" and s = "(ds, [])" and body = gate_body and n = ?n]
    g gb by simp
  have sr: "length (fst s') = ?n" if "shift_round err1 i s = Inr s'" and "length (fst s) = ?n" for i s s'
    using shift_round_lengths [of err1 i "fst s" "snd s" "fst s'" "snd s'"] that by simp
  have l2: "length ds2 = ?n"
    using try_for_range_keeps [OF r, where Q = "\<lambda>s. length (fst s) = ?n"] l1 sr by simp
  have vb: "length (fst (validate_body i s)) = length (fst s)" for i s
    by (cases s) (simp add: validate_body_def split: prod.splits)
  have "length ds' = ?n"
    using for_range_keeps [where Q = "\<lambda>s. length (fst s) = ?n" and body = validate_body and n = ?n
        and s = "(clock_all set_low (clock_all set_high ds2), err1)"] v l2
    by (simp add: vb clock_all_map)
  then show ?thesis
    using o by simp
qed

theorem read_multiple_lengths_witness:
  "read_multiple [\<lparr>clock_pin = False, conv_polls = 3, edges = 0, pulses = 0, conv = 0x800000\<rparr>] = Inr ([expected_reading \<lparr>clock_pin = False, conv_polls = 3, edges = 0, pulses = 0, conv = 0x800000\<rparr>], [(pulse ^^ 25) (snd (wait_ready \<lparr>clock_pin = False, conv_polls = 3, edges = 0, pulses = 0, conv = 0x800000\<rparr> 0))]) \<and>
   length [expected_reading \<lparr>clock_pin = False, conv_polls = 3, edges = 0, pulses = 0, conv = 0x800000\<rparr>] = length [\<lparr>clock_pin = False, conv_polls = 3, edges = 0, pulses = 0, conv = 0x800000\<rparr>] \<and>
   length [(pulse ^^ 25) (snd (wait_ready \<lparr>clock_pin = False, conv_polls = 3, edges = 0, pulses = 0, conv = 0x800000\<rparr> 0))] = length [\<lparr>clock_pin = False, conv_polls = 3, edges = 0, pulses = 0, conv = 0x800000\<rparr>]"
proof -
  have r: "read_multiple [\<lparr>clock_pin = False, conv_polls = 3, edges = 0, pulses = 0, conv = 0x800000\<rparr>] = Inr ([expected_reading \<lparr>clock_pin = False, conv_polls = 3, edges = 0, pulses = 0, conv = 0x800000\<rparr>], [(pulse ^^ 25) (snd (wait_ready \<lparr>clock_pin = False, conv_polls = 3, edges = 0, pulses = 0, conv = 0x800000\<rparr> 0))])"
    using read_multiple_idle [of "[\<lparr>clock_pin = False, conv_polls = 3, edges = 0, pulses = 0, conv = 0x800000\<rparr>]"] by (simp add: idle_def)
  show ?thesis
    using r read_multiple_lengths [OF r] by simp
qed


text \<open>
  C1: when every device is idle (clock low, no bit shifted out) and finishes its
  conversion within the poll budget, and there are at most 24 of them,
  \<open>read_multiple\<close> returns, in request order, each device's 24-bit conversion read
  as two's complement and divided by \<open>2^23\<close>.
\<close>

theorem read_multiple_correct:
  assumes "length ds \<le> 24" and "\<forall>d\<in>set ds. idle d \<and> conv_polls d \<le> 1000001"
  shows "\<exists>ds'. read_multiple ds = Inr (map (\<lambda>d. Ok (real_of_int (sint (conv d)) / 2^23)) ds, ds')"
proof -
  have "map expected_reading ds = map (\<lambda>d. Ok (real_of_int (sint (conv d)) / 2^23)) ds"
    using assms(2) by (auto simp: expected_reading_def stuck_def)
  then show ?thesis
    using read_multiple_idle [OF assms(1)] assms(2) by auto
qed

lemma read_multiple_correct_witness:
  "idle \<lparr>clock_pin = False, conv_polls = 3, edges = 0, pulses = 0, conv = 0x800000\<rparr> \<and>
   idle \<lparr>clock_pin = False, conv_polls = 1000001, edges = 0, pulses = 7, conv = 5\<rparr> \<and>
   (\<exists>ds'. read_multiple [\<lparr>clock_pin = False, conv_polls = 3, edges = 0, pulses = 0, conv = 0x800000\<rparr>,
                          \<lparr>clock_pin = False, conv_polls = 1000001, edges = 0, pulses = 7, conv = 5\<rparr>]
          = Inr ([Ok (-1), Ok (5 / 8388608)], ds'))"
  using read_multiple_correct [of "[\<lparr>clock_pin = False, conv_polls = 3, edges = 0, pulses = 0, conv = 0x800000\<rparr>,
                                    \<lparr>clock_pin = False, conv_polls = 1000001, edges = 0, pulses = 7, conv = 5\<rparr>]"]
  by (simp add: idle_def)

text \<open>
  C2: failure isolation. If device \<open>k\<close> stays busy beyond the poll budget, its
  channel alone reports \<open>Err "Read Error"\<close>; every other channel still returns its
  reading.
\<close>

theorem read_multiple_isolation:
  assumes "length ds \<le> 24" and "\<forall>d\<in>set ds. idle d" and "k < length ds"
    and "1000001 < conv_polls (ds ! k)"
    and "\<forall>i<length ds. i \<noteq> k \<longrightarrow> conv_polls (ds ! i) \<le> 1000001"
  shows "\<exists>out ds'. read_multiple ds = Inr (out, ds') \<and> out ! k = Err ''Read Error'' \<and>
           (\<forall>i<length ds. i \<noteq> k \<longrightarrow> out ! i = Ok (real_of_int (sint (conv (ds ! i))) / 2^23))"
proof -
  have "map expected_reading ds ! k = Err ''Read Error''"
    using assms(3,4) by (simp add: expected_reading_def stuck_def)
  moreover have "map expected_reading ds ! i = Ok (real_of_int (sint (conv (ds ! i))) / 2^23)"
    if "i < length ds" "i \<noteq> k" for i
    using assms(5) that by (auto simp: expected_reading_def stuck_def)
  ultimately show ?thesis
    using read_multiple_idle [OF assms(1,2)] by blast
qed

lemma read_multiple_isolation_witness:
  "length [\<lparr>clock_pin = False, conv_polls = 2000000, edges = 0, pulses = 0, conv = 9\<rparr>,
           \<lparr>clock_pin = False, conv_polls = 10, edges = 0, pulses = 0, conv = 0xFFFFFF\<rparr>] \<le> 24 \<and>
   (\<exists>out ds'. read_multiple [\<lparr>clock_pin = False, conv_polls = 2000000, edges = 0, pulses = 0, conv = 9\<rparr>,
                              \<lparr>clock_pin = False, conv_polls = 10, edges = 0, pulses = 0, conv = 0xFFFFFF\<rparr>]
      = Inr (out, ds') \<and> out ! 0 = Err ''Read Error'' \<and> out ! 1 = Ok (- (1 / 8388608)))"
proof -
  let ?ds = "[\<lparr>clock_pin = False, conv_polls = 2000000, edges = 0, pulses = 0, conv = 9\<rparr>,
              \<lparr>clock_pin = False, conv_polls = 10, edges = 0, pulses = 0, conv = 0xFFFFFF::24 word\<rparr>]"
  have "\<exists>out ds'. read_multiple ?ds = Inr (out, ds') \<and> out ! 0 = Err ''Read Error'' \<and>
           (\<forall>i<length ?ds. i \<noteq> 0 \<longrightarrow> out ! i = Ok (real_of_int (sint (conv (?ds ! i))) / 2^23))"
    by (rule read_multiple_isolation) (auto simp: idle_def less_Suc_eq)
  then show ?thesis
    by auto
qed

text \<open>
  C3: lock-step clocking. Whatever each channel's outcome, every clock line sees
  exactly 25 rising edges per call (24 data bits and the gain pulse) and is left low.
\<close>

theorem read_multiple_pulses:
  assumes "length ds \<le> 24" and "\<forall>d\<in>set ds. idle d"
    and "read_multiple ds = Inr (out, ds')"
  shows "map pulses ds' = map (\<lambda>d. pulses d + 25) ds \<and> (\<forall>d\<in>set ds'. \<not> clock_pin d)"
proof -
  have ds': "ds' = map (\<lambda>d. (pulse ^^ 25) (snd (wait_ready d 0))) ds"
    using read_multiple_idle [OF assms(1,2)] assms(3) by simp
  have "pulses ((pulse ^^ 25) (snd (wait_ready d 0))) = pulses d + 25 \<and>
        \<not> clock_pin ((pulse ^^ 25) (snd (wait_ready d 0)))" if "d \<in> set ds" for d
    using pulses_funpow_pulse [of "snd (wait_ready d 0)" 25] gated_idle [of d] assms(2) that by simp
  then show ?thesis
    using ds' by auto
qed

lemma read_multiple_pulses_witness:
  "idle \<lparr>clock_pin = False, conv_polls = 2000000, edges = 0, pulses = 4, conv = 9\<rparr> \<and>
   (\<exists>out ds'. read_multiple [\<lparr>clock_pin = False, conv_polls = 2000000, edges = 0, pulses = 4, conv = 9\<rparr>] = Inr (out, ds') \<and>
      map pulses ds' = [29])"
proof -
  let ?ds = "[\<lparr>clock_pin = False, conv_polls = 2000000, edges = 0, pulses = 4, conv = 9::24 word\<rparr>]"
  have i: "\<forall>d\<in>set ?ds. idle d"
    by (simp add: idle_def)
  obtain out ds' where r: "read_multiple ?ds = Inr (out, ds')"
    using read_multiple_idle [of ?ds] i by simp
  have "map pulses ds' = map (\<lambda>d. pulses d + 25) ?ds"
    using read_multiple_pulses [OF _ i r] by simp
  then show ?thesis
    using i r by auto
qed

text \<open>
  C5: readings are bounded whatever the devices do. Every \<open>Ok\<close> reading a call
  returns lies in \<open>[-1, 1)\<close>, for any behaviour of the chips (busy, glitching,
  out of step): the accumulators never exceed 24 bits.
\<close>

theorem read_multiple_readings_bounded:
  assumes "read_multiple ds = Inr (out, ds')" and "Ok r \<in> set out"
  shows "-1 \<le> r \<and> r < 1"
proof -
  obtain err1 ds1 ds2 data err2 where
    r: "try_for_range 24 (shift_round err1) (ds1, replicate (length ds) 0) = Inr (ds2, data)"
    and o: "out = map (output_of err2 data) [0..<length ds]"
    using read_multiple_Inr [OF assms(1)] by metis
  obtain i where "i < length ds" and "output_of err2 data i = Ok r"
    using assms(2) o by auto
  then have "r = to_reading (data ! i)"
    by (auto simp: output_of_def split: if_splits)
  moreover have "length data = length ds"
  proof -
    have "length (snd s') = length ds" if "shift_round err1 k s = Inr s'" and "length (snd s) = length ds" for k s s'
      using shift_round_lengths [of err1 k "fst s" "snd s" "fst s'" "snd s'"] that by simp
    then show ?thesis
      using try_for_range_keeps [OF r, where Q = "\<lambda>s. length (snd s) = length ds"] by simp
  qed
  then have "unat (data ! i) < 2 ^ 24"
    using shift_rounds_bound [OF r] \<open>i < length ds\<close> by simp
  ultimately show ?thesis
    by (simp add: to_reading_bounds)
qed

theorem read_multiple_readings_bounded_witness:
  "read_multiple [\<lparr>clock_pin = False, conv_polls = 0, edges = 0, pulses = 0, conv = 0x800000\<rparr>] = Inr ([expected_reading \<lparr>clock_pin = False, conv_polls = 0, edges = 0, pulses = 0, conv = 0x800000\<rparr>], [(pulse ^^ 25) (snd (wait_ready \<lparr>clock_pin = False, conv_polls = 0, edges = 0, pulses = 0, conv = 0x800000\<rparr> 0))]) \<and>
   Ok (real_of_int (sint (0x800000 :: 24 word)) / 2 ^ 23) \<in> set [expected_reading \<lparr>clock_pin = False, conv_polls = 0, edges = 0, pulses = 0, conv = 0x800000\<rparr>] \<and>
   -1 \<le> real_of_int (sint (0x800000 :: 24 word)) / 2 ^ 23 \<and> real_of_int (sint (0x800000 :: 24 word)) / 2 ^ 23 < 1"
proof -
  have r: "read_multiple [\<lparr>clock_pin = False, conv_polls = 0, edges = 0, pulses = 0, conv = 0x800000\<rparr>] = Inr ([expected_reading \<lparr>clock_pin = False, conv_polls = 0, edges = 0, pulses = 0, conv = 0x800000\<rparr>], [(pulse ^^ 25) (snd (wait_ready \<lparr>clock_pin = False, conv_polls = 0, edges = 0, pulses = 0, conv = 0x800000\<rparr> 0))])"
    using read_multiple_idle [of "[\<lparr>clock_pin = False, conv_polls = 0, edges = 0, pulses = 0, conv = 0x800000\<rparr>]"] by (simp add: idle_def)
  have o: "Ok (real_of_int (sint (0x800000 :: 24 word)) / 2 ^ 23) \<in> set [expected_reading \<lparr>clock_pin = False, conv_polls = 0, edges = 0, pulses = 0, conv = 0x800000\<rparr>]"
    by (simp add: expected_reading_def stuck_def)
  show ?thesis
    using r o read_multiple_readings_bounded [OF r o] by blast
qed

text \<open>
  C6: the channel limit. A call with more than 24 devices whose 25th device (index
  24) passes the ready gate panics with an out-of-range index in the first round of
  the shift phase, whatever the other devices do.
\<close>

theorem read_multiple_channel_limit:
  assumes "24 < length ds" and "edges (ds ! 24) = 0" and "\<not> stuck (ds ! 24)"
  shows "read_multiple ds = Inl IndexOutOfBounds"
proof -
  let ?n = "length ds"
  let ?f = "\<lambda>i ds. ds[i := snd (wait_ready (ds ! i) 0)]"
  let ?ds1 = "for_range ?n ?f ds"
  let ?err1 = "filter (\<lambda>i. fst (wait_ready (ds ! i) 0)) [0..<?n]"
  have g: "for_range ?n gate_body (ds, []) = (?ds1, ?err1)"
    using gate_loop [of ?n ds "[]"] by simp
  have w: "wait_ready (ds ! 24) 0 = (False, (ds ! 24)\<lparr>conv_polls := 0\<rparr>)"
    using wait_ready_0 [OF assms(2)] assms(3) by simp
  have d1: "?ds1 ! 24 = (ds ! 24)\<lparr>conv_polls := 0\<rparr>"
    using assms(1) w by (simp add: for_range_update_nth [where f = "\<lambda>_ d. snd (wait_ready d 0)"])
  have l1: "length ?ds1 = ?n"
    by (simp add: length_for_range_update [where f = "\<lambda>_ d. snd (wait_ready d 0)"])
  have e1: "24 \<notin> set ?err1"
    using w by simp
  have "shift_round ?err1 0 (?ds1, replicate ?n 0) = Inl IndexOutOfBounds"
    using assms(1) l1 d1 e1 by (intro shift_round_channel_24) simp_all
  then have "try_for_range 24 (shift_round ?err1) (?ds1, replicate ?n 0) = Inl IndexOutOfBounds"
    using try_for_range_first_Inl [of "shift_round ?err1" _ _ 23] by simp
  then show ?thesis
    by (simp add: read_multiple_def g)
qed

theorem read_multiple_channel_limit_witness:
  "read_multiple (replicate 25 \<lparr>clock_pin = False, conv_polls = 0, edges = 0, pulses = 0, conv = 0\<rparr>) =
     Inl IndexOutOfBounds"
  by (rule read_multiple_channel_limit) (simp_all add: stuck_def)

section \<open>Properties of the decoding\<close>

text \<open>
  C12: the decoding of \<open>read_multiple\<close> reads the 24-bit accumulator as a
  two's-complement number and divides it by \<open>2^23\<close>: it is \<open>sint\<close> of the 24 bits.
\<close>

theorem reading_is_sint:
  "to_reading (ucast c) = real_of_int (sint (c::24 word)) / 2^23"
  by (simp add: to_reading_def twos_complement_sint)

text \<open>
  C13: round trip. For every 24-bit code, scaling the decoded reading back by \<open>2^23\<close>,
  rounding and masking to 24 bits gives the code again; \<open>0x800000\<close> included.
\<close>

theorem reading_roundtrip:
  assumes "unat (x::u32) < 2^24"
  shows "encode_reading (to_reading x) = x"
proof -
  have "to_reading x * 8388608 = real_of_int (twos_complement x)"
    by (simp add: to_reading_def)
  then show ?thesis
    using encode_twos_complement [OF assms] by (simp add: encode_reading_def)
qed

lemma reading_roundtrip_witness:
  "unat (0x800000::u32) < 2^24 \<and> encode_reading (to_reading 0x800000) = 0x800000"
  using reading_roundtrip [of "0x800000"] by simp

text \<open>
  C14: every reading lies in \<open>[-1, 1)\<close>: the magnitude reaches 1 at \<open>0x800000\<close>, so
  it is not strictly below 1 for every code.
\<close>

theorem reading_range:
  "-1 \<le> to_reading (ucast (c::24 word)) \<and> to_reading (ucast c) < 1"
proof -
  have "- (2^23) \<le> sint c" and "sint c < 2^23"
    using sint_ge [of c] sint_lt [of c] by simp_all
  then have "(-8388608::int) \<le> sint c" and "sint c < 8388608"
    by simp_all
  then have "(-8388608::real) \<le> real_of_int (sint c)" and "real_of_int (sint c) < (8388608::real)"
    by linarith+
  then show ?thesis
    by (simp add: to_reading_def twos_complement_sint)
qed

section \<open>Properties of the single-device reader\<close>

text \<open>
  C7: \<open>Hx711::read\<close> on a chip that has not started a readout. If the chip becomes
  ready within the poll budget, it returns \<open>Ok\<close> of an \<open>i32\<close> whose signed value is
  the chip's 24-bit result, after exactly 25 clock pulses, clock left low; otherwise
  \<open>Err "HX711 device is not ready"\<close> and no pulse.
\<close>

theorem read_correct:
  assumes "edges d = 0"
  shows "(case read d of
            (Ok v, d') \<Rightarrow> \<not> stuck d \<and> sint v = sint (conv d) \<and>
                          pulses d' = pulses d + 25 \<and> \<not> clock_pin d'
          | (Err e, d') \<Rightarrow> stuck d \<and> e = ''HX711 device is not ready'' \<and> pulses d' = pulses d)"
proof -
  have "pulses ((pulse ^^ 25) ((set_low d)\<lparr>conv_polls := 0\<rparr>)) = pulses d + 25 \<and>
        \<not> clock_pin ((pulse ^^ 25) ((set_low d)\<lparr>conv_polls := 0\<rparr>))"
    using pulses_funpow_pulse [of "(set_low d)\<lparr>conv_polls := 0\<rparr>" 25] by (simp add: pin_simps)
  then show ?thesis
    using read_eq [OF assms] by (simp add: sint_i32_of_sint24 pin_simps)
qed

theorem read_correct_witness:
  "(case read \<lparr>clock_pin = True, conv_polls = 7, edges = 0, pulses = 3, conv = 0xFFFFFF\<rparr> of
      (Ok v, d') \<Rightarrow> \<not> stuck \<lparr>clock_pin = True, conv_polls = 7, edges = 0, pulses = 3, conv = 0xFFFFFF\<rparr> \<and> sint v = sint (conv \<lparr>clock_pin = True, conv_polls = 7, edges = 0, pulses = 3, conv = 0xFFFFFF\<rparr>) \<and>
                    pulses d' = pulses \<lparr>clock_pin = True, conv_polls = 7, edges = 0, pulses = 3, conv = 0xFFFFFF\<rparr> + 25 \<and> \<not> clock_pin d'
    | (Err e, d') \<Rightarrow> stuck \<lparr>clock_pin = True, conv_polls = 7, edges = 0, pulses = 3, conv = 0xFFFFFF\<rparr> \<and> e = ''HX711 device is not ready'' \<and> pulses d' = pulses \<lparr>clock_pin = True, conv_polls = 7, edges = 0, pulses = 3, conv = 0xFFFFFF\<rparr>)"
  by (rule read_correct) simp

text \<open>
  C8: the two readers agree. On one idle device, \<open>read_multiple\<close> returns the
  reading of \<open>read\<close> divided by \<open>2^23\<close>, or \<open>Err "Read Error"\<close> when \<open>read\<close>
  fails; when the device is ready both leave it in the same state.
\<close>

theorem read_agrees_read_multiple:
  assumes "idle d"
  shows "\<exists>d'. read_multiple [d] =
           Inr ([case fst (read d) of Ok v \<Rightarrow> Ok (real_of_int (sint v) / 2 ^ 23) | Err e \<Rightarrow> Err ''Read Error''], [d']) \<and>
           (\<not> stuck d \<longrightarrow> d' = snd (read d))"
proof -
  have e: "edges d = 0" and s: "set_low d = d"
    using assms by (simp_all add: idle_def set_low_def)
  have w: "snd (wait_ready d 0) = d\<lparr>conv_polls := 0\<rparr>" if "\<not> stuck d"
    using wait_ready_0 [OF e] that by simp
  have "read_multiple [d] = Inr ([expected_reading d], [(pulse ^^ 25) (snd (wait_ready d 0))])"
    using read_multiple_idle [of "[d]"] assms by simp
  then show ?thesis
    using read_eq [OF e] w s
    by (auto simp: expected_reading_def sint_i32_of_sint24)
qed

theorem read_agrees_read_multiple_witness:
  "\<exists>d'. read_multiple [\<lparr>clock_pin = False, conv_polls = 2, edges = 0, pulses = 0, conv = 0x800000\<rparr>] =
      Inr ([case fst (read \<lparr>clock_pin = False, conv_polls = 2, edges = 0, pulses = 0, conv = 0x800000\<rparr>) of
              Ok v \<Rightarrow> Ok (real_of_int (sint v) / 2 ^ 23) | Err e \<Rightarrow> Err ''Read Error''], [d']) \<and>
      (\<not> stuck \<lparr>clock_pin = False, conv_polls = 2, edges = 0, pulses = 0, conv = 0x800000\<rparr> \<longrightarrow>
         d' = snd (read \<lparr>clock_pin = False, conv_polls = 2, edges = 0, pulses = 0, conv = 0x800000\<rparr>))"
  by (rule read_agrees_read_multiple) (simp add: idle_def)

end
