(* ===== verification/Telemetry.thy ===== *)
theory Telemetry
  imports Prelude
begin

unbundle bit_operations_syntax

text \<open>
  The ESC telemetry path of \<open>src/logging/src/main.rs\<close>: \<open>process_string\<close>, which
  decodes one line of hex digits into the ESC's fields, and the line reader of
  \<open>control_sequence\<close>, which sends the throttle-increment command and reads lines
  until the text it holds is 22 bytes long. Strings are byte strings (\<open>char list\<close>),
  as Rust's \<open>len\<close> and \<open>as_bytes\<close> count them. The lemmas give the decoding of
  every field, the hex round trip, the parse of every two-character chunk, and what
  the reader does with lines of the wrong length.
\<close>

section \<open>Parsing hex digits\<close>

text \<open>\<open>char::to_digit(16)\<close>.\<close>

definition hex_digit :: "char \<Rightarrow> nat option" where
  "hex_digit c =
     (let n = of_char c :: nat in
      if 48 \<le> n \<and> n \<le> 57 then Some (n - 48)
      else if 97 \<le> n \<and> n \<le> 102 then Some (n - 87)
      else if 65 \<le> n \<and> n \<le> 70 then Some (n - 55)
      else None)"

text \<open>The digit loop of \<open>u8::from_str_radix\<close>: \<open>result * 16 + digit\<close>, checked for overflow.\<close>

fun digits_u8 :: "u8 \<Rightarrow> char list \<Rightarrow> u8 option" where
  "digits_u8 acc [] = Some acc"
| "digits_u8 acc (c # cs) =
     (case hex_digit c of
        None \<Rightarrow> None
      | Some d \<Rightarrow> if unat acc * 16 + d < 256 then digits_u8 (acc * 16 + of_nat d) cs else None)"

text \<open>
  \<open>u8::from_str_radix(s, 16)\<close>: the empty string and a lone sign are errors; an
  unsigned type accepts a leading \<open>+\<close>.
\<close>

definition from_str_radix16 :: "char list \<Rightarrow> u8 option" where
  "from_str_radix16 s =
     (case s of
        [] \<Rightarrow> None
      | c # r \<Rightarrow>
          if c = CHR ''+'' then (if r = [] then None else digits_u8 0 r)
          else if c = CHR ''-'' \<and> r = [] then None
          else digits_u8 0 s)"

text \<open>
  \<open>std::str::from_utf8\<close> on a chunk of at most two bytes of a valid string: ASCII
  bytes, or one two-byte sequence.
\<close>

definition utf8_chunk :: "char list \<Rightarrow> bool" where
  "utf8_chunk ch =
     (list_all (\<lambda>c. of_char c < (128::nat)) ch \<or>
      (case ch of
         [a, b] \<Rightarrow> 194 \<le> (of_char a :: nat) \<and> (of_char a :: nat) \<le> 223 \<and>
                   128 \<le> (of_char b :: nat) \<and> (of_char b :: nat) \<le> 191
       | _ \<Rightarrow> False))"

text \<open>\<open>as_bytes().chunks(2)\<close>.\<close>

fun chunks2 :: "'a list \<Rightarrow> 'a list list" where
  "chunks2 [] = []"
| "chunks2 [a] = [[a]]"
| "chunks2 (a # b # r) = [a, b] # chunks2 r"

text \<open>The closure of the \<open>map\<close>: each \<open>expect\<close> is a panic.\<close>

definition decode_chunk :: "char list \<Rightarrow> panic + u8" where
  "decode_chunk ch =
     (if \<not> utf8_chunk ch then Inl (Expect ''Invalid UTF-8 chunk'')
      else case from_str_radix16 ch of
             None \<Rightarrow> Inl (Expect ''Failed to parse hexadecimal'')
           | Some b \<Rightarrow> Inr b)"

text \<open>\<open>.map(..).collect()\<close> into a \<open>Vec<u8>\<close>: the chunks in order, the first panic ends it.\<close>

fun decode_chunks :: "char list list \<Rightarrow> panic + u8 list" where
  "decode_chunks [] = Inr []"
| "decode_chunks (ch # chs) =
     pbind (decode_chunk ch) (\<lambda>b. pbind (decode_chunks chs) (\<lambda>bs. Inr (b # bs)))"

text \<open>\<open>data.trim_end_matches("\r\n")\<close>: every trailing CR LF pair is removed.\<close>

fun drop_crlf_rev :: "char list \<Rightarrow> char list" where
  "drop_crlf_rev (a # b # r) =
     (if a = CHR 0x0A \<and> b = CHR 0x0D then drop_crlf_rev r else a # b # r)"
| "drop_crlf_rev r = r"

definition trim_end_crlf :: "char list \<Rightarrow> char list" where
  "trim_end_crlf s = rev (drop_crlf_rev (rev s))"

section \<open>The fields of a frame\<close>

text \<open>\<open>(u16::from(hi) << 8) | u16::from(lo)\<close>.\<close>

definition be16 :: "u8 \<Rightarrow> u8 \<Rightarrow> u16" where
  "be16 hi lo = push_bit 8 (ucast hi) OR ucast lo"

text \<open>\<open>100 * ((u32::from(u16::from(hi)) << 8) | u32::from(lo))\<close>.\<close>

definition erpm_word :: "u8 \<Rightarrow> u8 \<Rightarrow> u32" where
  "erpm_word hi lo = 100 * (push_bit 8 (ucast (ucast hi :: u16)) OR ucast lo)"

text \<open>\<open>MOTOR_MAGNET_POLES\<close>.\<close>

definition motor_magnet_poles :: real where
  "motor_magnet_poles = 14"

text \<open>
  The values \<open>process_string\<close> computes. The \<open>f64\<close> divisions are real divisions
  here: their rounding is not modelled.
\<close>

record telemetry =
  temperature :: u8
  voltage :: real
  current :: real
  m_ah :: real
  erpm :: real
  omega :: real

definition telemetry_of :: "u8 list \<Rightarrow> telemetry" where
  "telemetry_of t =
     (let erpm = real (unat (erpm_word (t ! 7) (t ! 8))) in
      \<lparr>temperature = t ! 0,
       voltage = real (unat (be16 (t ! 1) (t ! 2))) / 100,
       current = real (unat (be16 (t ! 3) (t ! 4))) / 100,
       m_ah = real (unat (be16 (t ! 5) (t ! 6))),
       erpm = erpm,
       omega = erpm * 2 * 3.14 / 60 / motor_magnet_poles / 2\<rparr>)"

text \<open>
  \<open>process_string\<close>: indexing \<open>telemetry[0..8]\<close> panics on fewer than 9 bytes. The
  row it returns is \<open>[voltage, omega]\<close> (their \<open>to_string\<close> is not modelled).
\<close>

definition process_string :: "char list \<Rightarrow> panic + telemetry" where
  "process_string data =
     pbind (decode_chunks (chunks2 (trim_end_crlf data))) (\<lambda>t.
       if length t < 9 then Inl IndexOutOfBounds else Inr (telemetry_of t))"

definition telemetry_row :: "telemetry \<Rightarrow> real list" where
  "telemetry_row tm = [voltage tm, omega tm]"

section \<open>The line reader\<close>

text \<open>
  \<open>while message_len != 22 { reader.read_line(&mut telemetry).expect("Read failed !");
  message_len = telemetry.len() }\<close>: each line is appended to the same string, which
  is never cleared inside the loop. The lines still to come are a list; a read when
  none comes is the port's timeout, an error, and the \<open>expect\<close> panics.
\<close>

fun read_frame :: "char list \<Rightarrow> char list list \<Rightarrow> panic + char list \<times> char list list" where
  "read_frame acc [] = Inl (Expect ''Read failed !'')"
| "read_frame acc (l # ls) =
     (let acc' = acc @ l in if length acc' = 22 then Inr (acc', ls) else read_frame acc' ls)"

section \<open>The ESC's side of a frame\<close>

text \<open>
  How the ESC writes a byte: two upper-case hex digits. The round-trip theorem decodes
  what this writes; it is not code of the repository.
\<close>

definition hex_char :: "nat \<Rightarrow> char" where
  "hex_char n = (if n < 10 then char_of (48 + n) else char_of (55 + n))"

definition hex_byte :: "u8 \<Rightarrow> char list" where
  "hex_byte b = [hex_char (unat b div 16), hex_char (unat b mod 16)]"

section \<open>Words of the fields\<close>

text \<open>A byte shifted up by 8 and or-ed with a byte is their big-endian value.\<close>

lemma unat_push8_or:
  fixes w v :: "'b::len word"
  assumes "16 \<le> LENGTH('b)" and "unat w < 256" and "unat v < 256"
  shows "unat (push_bit 8 w OR v) = 256 * unat w + unat v"
proof -
  have lb: "(2::nat) ^ 16 \<le> 2 ^ LENGTH('b)"
    using assms(1) by (intro power_increasing) simp_all
  have n256: "unat (256::'b word) = 256"
    using lb by (simp add: unat_numeral take_bit_nat_eq_self_iff)
  have p: "push_bit 8 w = w * 256"
    by (simp add: push_bit_eq_mult)
  have "unat w * unat (256::'b word) < 2 ^ LENGTH('b)"
    using assms(2) lb n256 by simp
  then have "unat (w * 256) = unat w * unat (256::'b word)"
    by (rule unat_mult_lem [THEN iffD1])
  then have hw: "unat (push_bit 8 w) = 256 * unat w"
    by (simp only: p n256)
  have "unat v < 2 ^ 8"
    using assms(3) by simp
  then have tv: "take_bit 8 v = v"
    by (metis take_bit_nat_eq_self_iff unsigned_take_bit_eq word_unat_eq_iff)
  have dis: "push_bit 8 w OR v = push_bit 8 w + v"
  proof (rule disjunctive_add [symmetric])
    fix n
    show "\<not> bit (push_bit 8 w) n \<or> \<not> bit v n"
      by (subst tv [symmetric]) (auto simp: bit_simps)
  qed
  have "unat (push_bit 8 w) + unat v < 2 ^ LENGTH('b)"
    using hw assms(2,3) lb by simp
  then have "unat (push_bit 8 w + v) = unat (push_bit 8 w) + unat v"
    by (rule unat_add_lem [THEN iffD1])
  then show ?thesis
    by (simp only: dis hw)
qed

lemma unat_be16: "unat (be16 hi lo) = 256 * unat hi + unat lo"
proof -
  have "unat (ucast hi :: u16) = unat hi" and "unat (ucast lo :: u16) = unat lo"
    by (rule unat_ucast_up; simp)+
  moreover have "unat hi < 256" and "unat lo < 256"
    using unat_less_len [of hi] unat_less_len [of lo] by simp_all
  ultimately show ?thesis
    unfolding be16_def by (subst unat_push8_or) simp_all
qed

lemma unat_erpm_word: "unat (erpm_word hi lo) = 100 * (256 * unat hi + unat lo)"
proof -
  let ?x = "push_bit 8 (ucast (ucast hi :: u16) :: u32) OR ucast lo"
  have "unat (ucast (ucast hi :: u16) :: u32) = unat hi" and "unat (ucast lo :: u32) = unat lo"
    by (simp_all add: unat_ucast_up)
  moreover have "unat hi < 256" and "unat lo < 256"
    using unat_less_len [of hi] unat_less_len [of lo] by simp_all
  ultimately have x: "unat ?x = 256 * unat hi + unat lo"
    by (subst unat_push8_or) simp_all
  have "unat (100::u32) * unat ?x < 2 ^ LENGTH(32)"
    using x \<open>unat hi < 256\<close> \<open>unat lo < 256\<close> by simp
  then have "unat (100 * ?x) = unat (100::u32) * unat ?x"
    by (rule unat_mult_lem [THEN iffD1])
  then show ?thesis
    by (simp add: erpm_word_def x)
qed

section \<open>Hex decoding\<close>

lemma of_char_hex_char:
  "n < 16 \<Longrightarrow> of_char (hex_char n) = (if n < 10 then 48 + n else 55 + n :: nat)"
  by (simp add: hex_char_def)

text \<open>A hex digit is none of the characters below \<open>0\<close>: CR, LF and the two signs.\<close>

lemma hex_char_neq:
  assumes "n < 16" and "of_char c < (48::nat)"
  shows "hex_char n \<noteq> c"
proof
  assume "hex_char n = c"
  then have "of_char (hex_char n) = (of_char c :: nat)" by simp
  then show False using assms of_char_hex_char [OF assms(1)] by (simp split: if_splits)
qed

lemma hex_digit_lt: "hex_digit c = Some d \<Longrightarrow> d < 16"
  by (auto simp: hex_digit_def Let_def split: if_splits)

lemma hex_digit_sign: "hex_digit (CHR ''+'') = None" "hex_digit (CHR ''-'') = None"
  by (simp_all add: hex_digit_def)

lemma hex_digit_hex_char: "n < 16 \<Longrightarrow> hex_digit (hex_char n) = Some n"
  by (auto simp: hex_char_def hex_digit_def Let_def)

lemma decode_chunk_hex_byte: "decode_chunk (hex_byte b) = Inr b"
proof -
  let ?h = "unat b div 16" and ?l = "unat b mod 16"
  have b: "unat b < 256" using unat_less_len [of b] by simp
  then have h: "?h < 16" by simp
  have l: "?l < 16" by simp
  have asc: "of_char (hex_char n) < (128::nat)" if "n < 16" for n
    using that by (simp add: of_char_hex_char)
  have np: "hex_char ?h \<noteq> CHR ''+'' \<and> hex_char ?h \<noteq> CHR ''-''"
    using h by (simp add: hex_char_neq)
  have hl: "?h * 16 + ?l = unat b"
    by (rule div_mult_mod_eq)
  have uh: "unat (of_nat ?h :: u8) = ?h"
    using h by (simp add: unat_of_nat)
  have "digits_u8 0 [hex_char ?h, hex_char ?l] = Some (of_nat ?h * 16 + of_nat ?l)"
    using h l b hl uh by (simp add: hex_digit_hex_char)
  also have "(of_nat ?h * 16 + of_nat ?l :: u8) = of_nat (?h * 16 + ?l)"
    by (simp only: of_nat_add of_nat_mult of_nat_numeral)
  also have "\<dots> = of_nat (unat b)"
    by (simp only: hl)
  also have "\<dots> = b" by simp
  finally show ?thesis
    using h l np asc by (simp add: decode_chunk_def hex_byte_def utf8_chunk_def from_str_radix16_def)
qed

lemma chunks2_hex_append:
  "chunks2 (concat (map hex_byte bs) @ r) = map hex_byte bs @ chunks2 r"
  by (induction bs) (simp_all add: hex_byte_def)

lemma chunks2_hex: "chunks2 (concat (map hex_byte bs)) = map hex_byte bs"
  using chunks2_hex_append [of bs "[]"] by simp

lemma decode_chunks_hex_append:
  "decode_chunks (map hex_byte bs @ r) = pbind (decode_chunks r) (\<lambda>t. Inr (bs @ t))"
  by (induction bs) (simp_all add: decode_chunk_hex_byte pbind_def split: sum.split)

lemma decode_chunks_hex: "decode_chunks (map hex_byte bs) = Inr bs"
  using decode_chunks_hex_append [of bs "[]"] by simp

lemma drop_crlf_rev_keep: "xs = [] \<or> hd xs \<noteq> CHR 0x0A \<Longrightarrow> drop_crlf_rev xs = xs"
  by (cases xs rule: drop_crlf_rev.cases) auto

lemma trim_hex_crlf:
  "trim_end_crlf (concat (map hex_byte bs) @ [CHR 0x0D, CHR 0x0A]) = concat (map hex_byte bs)"
proof -
  have "rev (concat (map hex_byte bs)) = [] \<or> hd (rev (concat (map hex_byte bs))) \<noteq> CHR 0x0A"
  proof (cases bs rule: rev_cases)
    case Nil
    then show ?thesis by simp
  next
    case (snoc cs b)
    have "unat b mod 16 < 16" by simp
    then show ?thesis using snoc by (simp add: hex_byte_def hex_char_neq)
  qed
  then show ?thesis
    by (simp add: trim_end_crlf_def drop_crlf_rev_keep)
qed

section \<open>The line reader\<close>

lemma read_frame_overlong: "22 < length acc \<Longrightarrow> read_frame acc ls = Inl (Expect ''Read failed !'')"
  by (induction acc ls rule: read_frame.induct) (simp_all add: Let_def)

lemma read_frame_Inr:
  "read_frame acc ls = Inr (f, rest) \<Longrightarrow> \<exists>pre. ls = pre @ rest \<and> f = acc @ concat pre \<and> length f = 22"
proof (induction acc ls rule: read_frame.induct)
  case (1 acc)
  then show ?case by simp
next
  case (2 acc l ls)
  show ?case
  proof (cases "length (acc @ l) = 22")
    case True
    then show ?thesis using "2.prems" by (auto simp: Let_def)
  next
    case False
    then have "read_frame (acc @ l) ls = Inr (f, rest)" using "2.prems" by (simp add: Let_def)
    then obtain pre where "ls = pre @ rest" "f = (acc @ l) @ concat pre" "length f = 22"
      using "2.IH" False by blast
    then show ?thesis by (intro exI [of _ "l # pre"]) simp
  qed
qed

lemma frame_example_hex:
  "''1B04B0001E00640ABC00'' = concat (map hex_byte [0x1B, 0x04, 0xB0, 0x00, 0x1E, 0x00, 0x64, 0x0A, 0xBC, 0x00])"
  by code_simp

section \<open>Properties\<close>

text \<open>
  C15: Round trip. A line holding the hex encoding of at least nine bytes, terminated by
  CR LF, decodes without panicking to the fields of those bytes.
\<close>

theorem process_string_roundtrip:
  assumes "9 \<le> length bs"
  shows "process_string (concat (map hex_byte bs) @ [CHR 0x0D, CHR 0x0A]) = Inr (telemetry_of bs)"
  using assms by (simp add: process_string_def trim_hex_crlf chunks2_hex decode_chunks_hex)

theorem process_string_roundtrip_witness:
  "process_string (''1B04B0001E00640ABC00'' @ [CHR 0x0D, CHR 0x0A]) =
     Inr \<lparr>temperature = 27, voltage = 12, current = 3 / 10, m_ah = 100, erpm = 274800,
          omega = 274800 * 2 * 3.14 / 60 / 14 / 2\<rparr>"
  apply (simp only: frame_example_hex)
  apply (subst process_string_roundtrip)
   apply simp
  apply (simp add: telemetry_of_def unat_be16 unat_erpm_word motor_magnet_poles_def)
  done

text \<open>
  C18: Field decoding. Every field is the big-endian value of its byte pair: the shifts,
  the or and the widening of \<open>process_string\<close> never lose a bit.
\<close>

theorem telemetry_fields:
  "temperature (telemetry_of t) = t ! 0 \<and>
   voltage (telemetry_of t) = real (256 * unat (t ! 1) + unat (t ! 2)) / 100 \<and>
   current (telemetry_of t) = real (256 * unat (t ! 3) + unat (t ! 4)) / 100 \<and>
   m_ah (telemetry_of t) = real (256 * unat (t ! 5) + unat (t ! 6)) \<and>
   erpm (telemetry_of t) = real (100 * (256 * unat (t ! 7) + unat (t ! 8))) \<and>
   omega (telemetry_of t) = erpm (telemetry_of t) * 2 * 3.14 / 60 / 14 / 2"
  by (simp add: telemetry_of_def Let_def unat_be16 unat_erpm_word motor_magnet_poles_def)

text \<open>
  C16: The reader never recovers from a line of the wrong length. If the first line read
  is not 22 bytes long, the next line is a full 22-byte frame, the text accumulates
  past 22 bytes and the loop only ends at the port's timeout, with the panic
  \<open>Read failed !\<close>. This holds of a frame as the specification writes it: 22 hex
  characters and a CR LF are 24 bytes.
\<close>

theorem read_frame_no_recovery:
  assumes "l \<noteq> []" and "length l \<noteq> 22" and "length f = 22"
  shows "read_frame [] (l # f # ls) = Inl (Expect ''Read failed !'')"
proof (cases "22 < length l")
  case True
  then show ?thesis by (simp add: read_frame_overlong)
next
  case False
  then have "22 < length (l @ f)" using assms by simp
  with False assms(2) show ?thesis by (simp add: read_frame_overlong)
qed

theorem read_frame_no_recovery_witness:
  "read_frame [] (''0'' # (''1B04B0001E00640ABC00'' @ [CHR 0x0D, CHR 0x0A]) # []) =
     Inl (Expect ''Read failed !'')"
  by (rule read_frame_no_recovery) simp_all

text \<open>
  C19: What the reader returns. A frame the reader returns is 22 bytes long and is the
  concatenation of the lines it consumed; the remaining lines are left unread.
\<close>

theorem read_frame_sound:
  assumes "read_frame [] ls = Inr (f, rest)"
  shows "\<exists>pre. ls = pre @ rest \<and> f = concat pre \<and> length f = 22"
  using read_frame_Inr [OF assms] by simp

theorem read_frame_sound_witness:
  "\<exists>pre. [''1B04B0001E00640ABC00'' @ [CHR 0x0D, CHR 0x0A], ''x''] = pre @ [''x''] \<and>
     ''1B04B0001E00640ABC00'' @ [CHR 0x0D, CHR 0x0A] = concat pre \<and>
     length (''1B04B0001E00640ABC00'' @ [CHR 0x0D, CHR 0x0A]) = 22"
  by (rule read_frame_sound) simp

text \<open>
  C17: A frame ending in a bare LF panics. A 22-byte line of 21 hex digits and an LF,
  which the reader accepts, leaves the LF in the last chunk: \<open>trim_end_matches\<close>
  removes only CR LF pairs, and the parse of that chunk panics.
\<close>

theorem process_string_bare_lf:
  assumes "n < 16"
  shows "process_string (concat (map hex_byte bs) @ [hex_char n, CHR 0x0A]) =
           Inl (Expect ''Failed to parse hexadecimal'')"
proof -
  have cr: "hex_char n \<noteq> CHR 0x0D" and sg: "hex_char n \<noteq> CHR ''+''" "hex_char n \<noteq> CHR ''-''"
    using assms by (simp_all add: hex_char_neq)
  have trim: "trim_end_crlf (concat (map hex_byte bs) @ [hex_char n, CHR 0x0A]) =
                concat (map hex_byte bs) @ [hex_char n, CHR 0x0A]"
    using cr by (simp add: trim_end_crlf_def)
  have lf: "hex_digit (CHR 0x0A) = None"
    by (simp add: hex_digit_def)
  have "decode_chunk [hex_char n, CHR 0x0A] = Inl (Expect ''Failed to parse hexadecimal'')"
    using assms sg lf
    by (simp add: decode_chunk_def utf8_chunk_def of_char_hex_char from_str_radix16_def
                  hex_digit_hex_char)
  then show ?thesis
    by (simp add: process_string_def trim chunks2_hex_append decode_chunks_hex_append)
qed

theorem process_string_bare_lf_witness:
  "process_string (''1B04B0001E00640ABC0'' @ [CHR 0x0A]) = Inl (Expect ''Failed to parse hexadecimal'')"
proof -
  have eq: "''1B04B0001E00640ABC0'' @ [CHR 0x0A] =
          concat (map hex_byte [0x1B, 0x04, 0xB0, 0x00, 0x1E, 0x00, 0x64, 0x0A, 0xBC]) @
          [hex_char 0, CHR 0x0A]"
    by code_simp
  show ?thesis
    unfolding eq by (rule process_string_bare_lf) simp
qed

text \<open>
  C20: The decoder of a two-character chunk, on ASCII input, is \<open>u8::from_str_radix(_, 16)\<close>:
  two hex digits give their value, anything else the parse panic, and a leading
  \<open>+\<close> sign followed by one hex digit is accepted as that digit's value.
\<close>

theorem decode_chunk_pair:
  assumes "of_char a < (128::nat)" and "of_char b < (128::nat)"
  shows "decode_chunk [a, b] =
    (if a = CHR ''+''
     then (case hex_digit b of Some y \<Rightarrow> Inr (of_nat y) | None \<Rightarrow> Inl (Expect ''Failed to parse hexadecimal''))
     else (case (hex_digit a, hex_digit b) of
             (Some x, Some y) \<Rightarrow> Inr (of_nat (16 * x + y))
           | _ \<Rightarrow> Inl (Expect ''Failed to parse hexadecimal'')))"
proof -
  have u: "utf8_chunk [a, b]"
    using assms by (simp add: utf8_chunk_def)
  show ?thesis
  proof (cases "a = CHR ''+''")
    case True
    then show ?thesis
      using u by (auto simp: decode_chunk_def from_str_radix16_def dest: hex_digit_lt split: option.splits)
  next
    case False
    show ?thesis
    proof (cases "hex_digit a")
      case None
      then show ?thesis
        using u False by (auto simp: decode_chunk_def from_str_radix16_def hex_digit_sign split: option.splits)
    next
      case (Some x)
      have x: "x < 16" using Some by (rule hex_digit_lt)
      have ux: "unat (of_nat x :: u8) = x"
        using x by (simp add: unat_of_nat)
      have "a \<noteq> CHR ''-''"
        using Some hex_digit_sign(2) by auto
      then show ?thesis
        using u False Some x ux
        by (auto simp: decode_chunk_def from_str_radix16_def dest: hex_digit_lt split: option.splits)
    qed
  qed
qed

theorem decode_chunk_pair_witness:
  "of_char (CHR ''+'') < (128::nat) \<and> of_char (CHR ''F'') < (128::nat) \<and>
   decode_chunk [CHR ''+'', CHR ''F''] =
    (if CHR ''+'' = CHR ''+''
     then (case hex_digit (CHR ''F'') of Some y \<Rightarrow> Inr (of_nat y) | None \<Rightarrow> Inl (Expect ''Failed to parse hexadecimal''))
     else (case (hex_digit (CHR ''+''), hex_digit (CHR ''F'')) of
             (Some x, Some y) \<Rightarrow> Inr (of_nat (16 * x + y))
           | _ \<Rightarrow> Inl (Expect ''Failed to parse hexadecimal'')))"
  using decode_chunk_pair [of "CHR ''+''" "CHR ''F''"] by simp

end
