(* ===== verification/Calibration.thy ===== *)
theory Calibration
  imports Load_Cell
begin

text \<open>
  The zero calibration \<open>calibrate_zero\<close> of \<open>src/logging/src/main.rs\<close>. It calls
  \<open>Hx711::read_multiple\<close> in a loop for five seconds of wall-clock time, adds every
  successful reading of channel \<open>i\<close> and its square into \<open>statistics[i]\<close>, counts the
  frames, and turns the sums into an offset and a variance with the channel's
  calibration gradient. Wall-clock time is not modelled: the loop runs over the list
  of frames read before the deadline, each given by the conversion every chip starts
  before it (its 24-bit result and how many reads it stays busy). The check of the
  deadline before the first frame always passes (\<open>start_time\<close> is taken just before
  it), so a run reads at least one frame. The \<open>f64\<close> sums are real numbers here:
  their rounding is not modelled.
\<close>

section \<open>Constants\<close>

text \<open>\<open>CALIBRATION_GRADIENTS: [f64; 1]\<close>: one entry, for channel 0.\<close>

definition calibration_gradients :: "real list" where
  "calibration_gradients = [0.0000246324555]"

section \<open>The chips between two frames\<close>

text \<open>
  Before each frame every chip starts a new conversion: the environment's move,
  one pair (result, busy reads) per device.
\<close>

definition new_conversions :: "(24 word \<times> nat) list \<Rightarrow> hx711 list \<Rightarrow> hx711 list" where
  "new_conversions vcs ds = map2 (\<lambda>(v, c) d. next_conversion v c d) vcs ds"

section \<open>Accumulating one frame\<close>

text \<open>
  The body of \<open>for i in 0..load_cell_read.len()\<close>: on \<open>Ok(r)\<close>, push a fresh entry
  if \<open>i\<close> is past the end of \<open>statistics\<close>, then add \<open>r\<close> and \<open>r * r\<close> to entry
  \<open>i\<close> (an index still out of range panics). The \<open>get(i).expect\<close> cannot fail: \<open>i\<close>
  ranges over the indices of the frame.
\<close>

definition stats_body ::
  "(real, string) result list \<Rightarrow> nat \<Rightarrow> (real \<times> real) list \<Rightarrow> panic + (real \<times> real) list" where
  "stats_body out i st =
     (case out ! i of
        Ok r \<Rightarrow>
          (let st1 = (if length st \<le> i then st @ [(0, 0)] else st) in
           if i < length st1
           then Inr (st1[i := (fst (st1 ! i) + r, snd (st1 ! i) + r * r)])
           else Inl IndexOutOfBounds)
      | Err e \<Rightarrow> Inr st)"

definition accumulate ::
  "(real, string) result list \<Rightarrow> (real \<times> real) list \<Rightarrow> panic + (real \<times> real) list" where
  "accumulate out st = try_for_range (length out) (stats_body out) st"

section \<open>The timed loop\<close>

text \<open>
  \<open>while start_time.elapsed().as_secs() < average_time { .. readings_count += 1 }\<close>,
  one iteration per frame of the list: the chips start their conversions, the devices
  are read, the frame is accumulated and the count incremented.
\<close>

primrec calib_loop ::
  "(24 word \<times> nat) list list \<Rightarrow> hx711 list \<Rightarrow> (real \<times> real) list \<Rightarrow> nat \<Rightarrow>
   panic + hx711 list \<times> (real \<times> real) list \<times> nat" where
  "calib_loop [] ds st cnt = Inr (ds, st, cnt)"
| "calib_loop (vcs # fs) ds st cnt =
     pbind (read_multiple (new_conversions vcs ds)) (\<lambda>(out, ds').
     pbind (accumulate out st) (\<lambda>st'. calib_loop fs ds' st' (Suc cnt)))"

section \<open>The statistics\<close>

text \<open>
  The body of \<open>for (i, (sum, sum_of_squares)) in statistics.iter_mut().enumerate()\<close>:
  mean and population variance over \<open>readings_count\<close>, scaled by
  \<open>coeff = -1.0 / CALIBRATION_GRADIENTS[i]\<close>, which panics for \<open>i \<ge> 1\<close>.
\<close>

definition finalize_body :: "nat \<Rightarrow> nat \<Rightarrow> (real \<times> real) list \<Rightarrow> panic + (real \<times> real) list" where
  "finalize_body cnt i st =
     (let (s, q) = st ! i;
          mean = s / real cnt;
          variance = q / real cnt - mean * mean in
      if i < length calibration_gradients
      then let coeff = - 1 / calibration_gradients ! i in
           Inr (st[i := (coeff * mean, coeff * coeff * variance)])
      else Inl IndexOutOfBounds)"

text \<open>The statistics vector at the end of \<open>calibrate_zero\<close>: (offset, variance) per channel.\<close>

definition calibrate_stats ::
  "(24 word \<times> nat) list list \<Rightarrow> hx711 list \<Rightarrow> panic + (real \<times> real) list \<times> hx711 list" where
  "calibrate_stats fs ds =
     pbind (calib_loop fs ds (replicate (length ds) (0, 0)) 0) (\<lambda>(ds', st, cnt).
     pbind (try_for_range (length st) (finalize_body cnt) st) (\<lambda>st'. Inr (st', ds')))"

text \<open>\<open>calibrate_zero\<close> returns the first component of each entry, the offsets.\<close>

definition calibrate_zero ::
  "(24 word \<times> nat) list list \<Rightarrow> hx711 list \<Rightarrow> panic + real list \<times> hx711 list" where
  "calibrate_zero fs ds = pbind (calibrate_stats fs ds) (\<lambda>(st, ds'). Inr (map fst st, ds'))"

section \<open>Reference functions\<close>

text \<open>What a frame reads from a chip that started conversion \<open>(v, c)\<close>.\<close>

definition conversion_reading :: "24 word \<times> nat \<Rightarrow> (real, string) result" where
  "conversion_reading vc =
     (if 1000001 < snd vc then Err ''Read Error'' else Ok (real_of_int (sint (fst vc)) / 2 ^ 23))"

text \<open>The contribution of one result to a channel's (sum, sum of squares).\<close>

primrec add_reading :: "real \<times> real \<Rightarrow> (real, string) result \<Rightarrow> real \<times> real" where
  "add_reading sq (Ok r) = (fst sq + r, snd sq + r * r)"
| "add_reading sq (Err e) = sq"

primrec ok_value :: "(real, string) result \<Rightarrow> real" where
  "ok_value (Ok r) = r"
| "ok_value (Err e) = 0"

section \<open>One frame\<close>

text \<open>
  Accumulating a frame as long as the statistics adds each result to its channel's
  entry; a frame of fresh conversions is read as \<open>conversion_reading\<close> says.
\<close>

lemma add_reading_ok_value:
  "add_reading sq r = (fst sq + ok_value r, snd sq + ok_value r * ok_value r)"
  by (cases r) simp_all

lemma stats_loop:
  assumes "n \<le> length st"
  shows "try_for_range n (stats_body out) st =
           Inr (for_range n (\<lambda>i s. s[i := add_reading (s ! i) (out ! i)]) st)"
  using assms
proof (induction n)
  case 0
  then show ?case by simp
next
  case (Suc n)
  let ?s = "for_range n (\<lambda>i s. s[i := add_reading (s ! i) (out ! i)]) st"
  have "n < length ?s"
    using Suc.prems by (simp add: length_for_range_update [where f = "\<lambda>i x. add_reading x (out ! i)"])
  then have "stats_body out n ?s = Inr (?s[n := add_reading (?s ! n) (out ! n)])"
    by (cases "out ! n") (simp_all add: stats_body_def Let_def)
  then show ?case
    using Suc by simp
qed

lemma accumulate_eq:
  assumes "length out = length st"
  shows "accumulate out st = Inr (map2 add_reading st out)"
proof -
  let ?f = "\<lambda>i x. add_reading x (out ! i)"
  have "for_range (length out) (\<lambda>i s. s[i := add_reading (s ! i) (out ! i)]) st = map2 add_reading st out"
  proof (rule nth_equalityI)
    show "length (for_range (length out) (\<lambda>i s. s[i := add_reading (s ! i) (out ! i)]) st) =
          length (map2 add_reading st out)"
      using assms by (simp add: length_for_range_update [where f = ?f])
  next
    fix i
    assume "i < length (for_range (length out) (\<lambda>i s. s[i := add_reading (s ! i) (out ! i)]) st)"
    then have "i < length st"
      by (simp add: length_for_range_update [where f = ?f])
    then show "for_range (length out) (\<lambda>i s. s[i := add_reading (s ! i) (out ! i)]) st ! i =
               map2 add_reading st out ! i"
      using assms by (simp add: for_range_update_nth [where f = ?f])
  qed
  then show ?thesis
    using assms by (simp add: accumulate_def stats_loop)
qed

lemma idle_next_conversion: "\<not> clock_pin d \<Longrightarrow> idle (next_conversion v c d)"
  by (simp add: idle_def next_conversion_def)

lemma expected_next_conversion:
  "expected_reading (next_conversion v c d) = conversion_reading (v, c)"
  by (simp add: expected_reading_def conversion_reading_def stuck_def next_conversion_def)

lemma read_multiple_new_conversions:
  assumes "length vcs = length ds" and "length ds \<le> 24" and "\<forall>d\<in>set ds. \<not> clock_pin d"
  shows "\<exists>ds'. read_multiple (new_conversions vcs ds) = Inr (map conversion_reading vcs, ds') \<and>
           length ds' = length ds \<and> (\<forall>d\<in>set ds'. \<not> clock_pin d)"
proof -
  let ?ds = "new_conversions vcs ds"
  have l: "length ?ds = length ds"
    using assms(1) by (simp add: new_conversions_def)
  have idle: "\<forall>d\<in>set ?ds. idle d"
    using assms(3) by (auto simp: new_conversions_def idle_next_conversion dest!: set_zip_rightD)
  have e: "map expected_reading ?ds = map conversion_reading vcs"
    using assms(1)
    by (intro nth_equalityI) (simp_all add: new_conversions_def expected_next_conversion case_prod_beta)
  have "\<not> clock_pin ((pulse ^^ 25) (snd (wait_ready d 0)))" if "d \<in> set ?ds" for d
    using pulses_funpow_pulse [of "snd (wait_ready d 0)" 25] gated_idle(2) [of d] idle that by simp
  then show ?thesis
    using read_multiple_idle [of ?ds] idle l assms(2) e by auto
qed


section \<open>The whole calibration\<close>

lemma calib_loop_eq:
  assumes "length ds \<le> 24" and "\<forall>d\<in>set ds. \<not> clock_pin d"
    and "\<forall>f\<in>set fs. length f = length ds" and "length st = length ds"
  shows "\<exists>ds'. calib_loop fs ds st cnt =
           Inr (ds', fold (\<lambda>f st. map2 add_reading st (map conversion_reading f)) fs st, cnt + length fs) \<and>
           length ds' = length ds \<and> (\<forall>d\<in>set ds'. \<not> clock_pin d)"
  using assms
proof (induction fs arbitrary: ds st cnt)
  case Nil
  then show ?case by simp
next
  case (Cons f fs)
  obtain ds' where r: "read_multiple (new_conversions f ds) = Inr (map conversion_reading f, ds')"
    and l: "length ds' = length ds" and k: "\<forall>d\<in>set ds'. \<not> clock_pin d"
    using read_multiple_new_conversions [of f ds] Cons.prems by auto
  have a: "accumulate (map conversion_reading f) st = Inr (map2 add_reading st (map conversion_reading f))"
    using Cons.prems by (intro accumulate_eq) simp
  obtain ds'' where
    "calib_loop fs ds' (map2 add_reading st (map conversion_reading f)) (Suc cnt) =
       Inr (ds'', fold (\<lambda>f st. map2 add_reading st (map conversion_reading f)) fs
                    (map2 add_reading st (map conversion_reading f)), Suc cnt + length fs)"
      and "length ds'' = length ds'" and "\<forall>d\<in>set ds''. \<not> clock_pin d"
    using Cons.IH [of ds' "map2 add_reading st (map conversion_reading f)" "Suc cnt"] Cons.prems l k by auto
  then show ?case
    using r a l by simp
qed

lemma fold_single_channel:
  "fold (\<lambda>f st. map2 add_reading st (map conversion_reading f)) (map (\<lambda>x. [x]) fs) [(a, b)] =
     [(a + sum_list (map (\<lambda>x. ok_value (conversion_reading x)) fs),
       b + sum_list (map (\<lambda>x. ok_value (conversion_reading x) * ok_value (conversion_reading x)) fs))]"
  by (induction fs arbitrary: a b) (simp_all add: add_reading_ok_value algebra_simps)

lemma finalize_single:
  "try_for_range (length [(s, q)]) (finalize_body cnt) [(s, q)] =
     Inr [((- 1 / calibration_gradients ! 0) * (s / real cnt),
           (- 1 / calibration_gradients ! 0) * (- 1 / calibration_gradients ! 0) *
             (q / real cnt - s / real cnt * (s / real cnt)))]"
  by (simp add: finalize_body_def Let_def calibration_gradients_def)

lemma finalize_panics:
  assumes "2 \<le> length st"
  shows "try_for_range (length st) (finalize_body cnt) st = Inl IndexOutOfBounds"
proof -
  have "try_for_range 2 (finalize_body cnt) st = Inl IndexOutOfBounds"
    by (simp add: numeral_2_eq_2 finalize_body_def Let_def calibration_gradients_def case_prod_beta)
  then show ?thesis
    using assms by (rule try_for_range_Inl_mono)
qed

lemma calibrate_stats_single:
  assumes "\<not> clock_pin d"
  shows "\<exists>d'. calibrate_stats (map (\<lambda>x. [x]) fs) [d] =
    Inr ([((- 1 / calibration_gradients ! 0) * (sum_list (map (\<lambda>x. ok_value (conversion_reading x)) fs) / real (length fs)),
           (- 1 / calibration_gradients ! 0) * (- 1 / calibration_gradients ! 0) *
             (sum_list (map (\<lambda>x. ok_value (conversion_reading x) * ok_value (conversion_reading x)) fs) / real (length fs) -
              sum_list (map (\<lambda>x. ok_value (conversion_reading x)) fs) / real (length fs) *
              (sum_list (map (\<lambda>x. ok_value (conversion_reading x)) fs) / real (length fs))))], [d'])"
proof -
  obtain ds' where "calib_loop (map (\<lambda>x. [x]) fs) [d] [(0, 0)] 0 =
      Inr (ds', fold (\<lambda>f st. map2 add_reading st (map conversion_reading f)) (map (\<lambda>x. [x]) fs) [(0, 0)],
           length fs)" and "length ds' = 1"
    using calib_loop_eq [of "[d]" "map (\<lambda>x. [x]) fs" "[(0, 0)]" 0] assms by auto
  then show ?thesis
    by (auto simp: calibrate_stats_def fold_single_channel finalize_single [simplified] length_Suc_conv)
qed


text \<open>One device and one frame: the calibration returns one offset and leaves the clock low.\<close>

lemma calibrate_zero_one:
  assumes "\<not> clock_pin d"
  shows "\<exists>off d'. calibrate_zero [[vc]] [d] = Inr ([off], [d']) \<and> \<not> clock_pin d'"
proof -
  obtain ds' where l: "calib_loop [[vc]] [d] [(0, 0)] 0 =
      Inr (ds', fold (\<lambda>f st. map2 add_reading st (map conversion_reading f)) [[vc]] [(0, 0)], 1)"
    and "length ds' = 1" and "\<forall>d\<in>set ds'. \<not> clock_pin d"
    using calib_loop_eq [of "[d]" "[[vc]]" "[(0, 0)]" 0] assms by auto
  then obtain d' where "ds' = [d']" and "\<not> clock_pin d'"
    by (auto simp: length_Suc_conv)
  then show ?thesis
    using l by (auto simp: calibrate_zero_def calibrate_stats_def finalize_body_def Let_def
                            calibration_gradients_def add_reading_ok_value)
qed

section \<open>Properties\<close>

text \<open>
  C9: calibration of one channel. With one device (the configuration of \<open>main\<close>),
  \<open>calibrate_zero\<close> returns \<open>-1/g\<close> times the sum of the successful readings
  divided by the number of frames read, failed frames included: the count is
  \<open>readings_count\<close>, incremented once per frame.
\<close>

theorem calibrate_zero_single:
  assumes "\<not> clock_pin d"
  shows "\<exists>d'. calibrate_zero (map (\<lambda>x. [x]) fs) [d] =
    Inr ([(- 1 / calibration_gradients ! 0) *
          (sum_list (map (\<lambda>x. ok_value (conversion_reading x)) fs) / real (length fs))], [d'])"
  using calibrate_stats_single [OF assms, of fs] by (auto simp: calibrate_zero_def)

theorem calibrate_zero_single_witness:
  "\<exists>d'. calibrate_zero (map (\<lambda>x. [x]) [(0x100, 3), (0x200, 2000000)])
      [\<lparr>clock_pin = False, conv_polls = 0, edges = 0, pulses = 0, conv = 0\<rparr>] =
    Inr ([(- 1 / calibration_gradients ! 0) *
          (sum_list (map (\<lambda>x. ok_value (conversion_reading x)) [(0x100, 3), (0x200, 2000000)]) /
           real (length [(0x100::24 word, 3::nat), (0x200, 2000000)]))], [d'])"
  by (rule calibrate_zero_single) simp

text \<open>
  C10: a constant input is calibrated exactly. If every frame reads the same ready
  conversion \<open>v\<close>, the offset is \<open>-reading(v)/g\<close> and the variance is zero.
\<close>

theorem calibrate_constant:
  assumes "\<not> clock_pin d" and "c \<le> 1000001" and "0 < k"
  shows "\<exists>d'. calibrate_stats (replicate k [(v, c)]) [d] =
    Inr ([(- (real_of_int (sint v) / 2 ^ 23) / calibration_gradients ! 0, 0)], [d'])"
proof -
  let ?r = "real_of_int (sint v) / 2 ^ 23"
  let ?g = "calibration_gradients ! 0"
  have r: "conversion_reading (v, c) = Ok ?r"
    using assms(2) by (simp add: conversion_reading_def)
  have m: "map (\<lambda>x. [x]) (replicate k (v, c)) = replicate k [(v, c)]"
    by simp
  have s1: "sum_list (map (\<lambda>x. ok_value (conversion_reading x)) (replicate k (v, c))) = real k * ?r"
    using r by (simp add: sum_list_replicate)
  have s2: "sum_list (map (\<lambda>x. ok_value (conversion_reading x) * ok_value (conversion_reading x))
              (replicate k (v, c))) = real k * (?r * ?r)"
    using r by (simp add: sum_list_replicate)
  have k: "real k \<noteq> 0"
    using assms(3) by simp
  have q1: "real k * ?r / real k = ?r" and q2: "real k * (?r * ?r) / real k = ?r * ?r"
    using k by simp_all
  obtain d' where "calibrate_stats (replicate k [(v, c)]) [d] =
      Inr ([((- 1 / ?g) * ?r, (- 1 / ?g) * (- 1 / ?g) * (?r * ?r - ?r * ?r))], [d'])"
    using calibrate_stats_single [OF assms(1), of "replicate k (v, c)"]
    by (simp only: m s1 s2 length_replicate q1 q2) blast
  then show ?thesis
    by simp
qed

theorem calibrate_constant_witness:
  "\<exists>d'. calibrate_stats (replicate 3 [(0x7FFFFF, 10)]) [\<lparr>clock_pin = False, conv_polls = 0, edges = 0, pulses = 0, conv = 0\<rparr>] =
    Inr ([(- (real_of_int (sint (0x7FFFFF :: 24 word)) / 2 ^ 23) / calibration_gradients ! 0, 0)], [d'])"
  by (rule calibrate_constant) simp_all

text \<open>
  C11: more than one channel panics. \<open>CALIBRATION_GRADIENTS\<close> has one entry, so
  with two or more devices the final loop indexes it out of range, after all frames
  have been read.
\<close>

theorem calibrate_zero_multi_panics:
  assumes "2 \<le> length ds" and "length ds \<le> 24" and "\<forall>d\<in>set ds. \<not> clock_pin d"
    and "\<forall>f\<in>set fs. length f = length ds"
  shows "calibrate_zero fs ds = Inl IndexOutOfBounds"
proof -
  let ?st = "fold (\<lambda>f st. map2 add_reading st (map conversion_reading f)) fs (replicate (length ds) (0, 0))"
  obtain ds' where l: "calib_loop fs ds (replicate (length ds) (0, 0)) 0 = Inr (ds', ?st, length fs)"
    using calib_loop_eq [of ds fs "replicate (length ds) (0, 0)" 0] assms(2-4) by auto
  have "length (fold (\<lambda>f st. map2 add_reading st (map conversion_reading f)) fs st) = length st"
    if "length st = length ds" for st
    using assms(4) that by (induction fs arbitrary: st) auto
  then have "2 \<le> length ?st"
    using assms(1) by simp
  then have "try_for_range (length ?st) (finalize_body (length fs)) ?st = Inl IndexOutOfBounds"
    by (rule finalize_panics)
  then show ?thesis
    using l by (simp add: calibrate_zero_def calibrate_stats_def)
qed

theorem calibrate_zero_multi_panics_witness:
  "calibrate_zero [[(0, 0), (0, 0)]]
      [\<lparr>clock_pin = False, conv_polls = 0, edges = 0, pulses = 0, conv = 0\<rparr>,
       \<lparr>clock_pin = False, conv_polls = 0, edges = 0, pulses = 0, conv = 0\<rparr>] = Inl IndexOutOfBounds"
  by (rule calibrate_zero_multi_panics) simp_all

end
