(* ===== verification/Control.thy ===== *)
theory Control
  imports Telemetry Calibration
begin

text \<open>
  The control loop of \<open>main\<close> in \<open>src/logging/src/main.rs\<close> and the Ctrl-C handler
  that runs beside it. The two threads share the serial port, behind a mutex, and the
  \<open>running\<close> flag. Each of \<open>initialise\<close>, \<open>control_sequence\<close> and
  \<open>exit_sequence\<close> holds the port's lock from its first write to its return, so it
  is one atomic step; the handler's store to \<open>running\<close> is outside the lock and may
  fall between any two steps of the main thread. The environment's choices are inputs
  of the steps: the frames read during calibration, the lines the ESC sends in reply
  to each command (the \<open>BufReader\<close> of a call is dropped at its return, with whatever
  it buffered), and the conversions the chips start before each frame. Writes to the
  port succeed; a panic ends the process.
\<close>

section \<open>The port commands\<close>

text \<open>\<open>MAX_PWM\<close>.\<close>

definition max_pwm :: i32 where
  "max_pwm = 1600"

text \<open>The commands of the wire protocol, in the order the port receives them.\<close>

definition cmd_stop :: string where
  "cmd_stop = [CHR '' '', CHR 0x0A]"

text \<open>\<open>initialise\<close>: the arm command \<open>" "\<close>, then the onewire command \<open>"t"\<close>.\<close>

definition initialise :: "string list \<Rightarrow> string list" where
  "initialise sent = sent @ [[CHR '' ''], [CHR ''t'']]"

text \<open>\<open>exit_sequence\<close>: the zero-throttle command; the flush and sleep change nothing.\<close>

definition exit_sequence :: "string list \<Rightarrow> string list" where
  "exit_sequence sent = sent @ [cmd_stop]"

text \<open>
  \<open>control_sequence\<close>: write \<open>"r"\<close>, then read lines until a 22-byte frame and decode
  it. A panic of the reader or the decoder comes after the write.
\<close>

definition control_sequence :: "string list \<Rightarrow> char list list \<Rightarrow> string list \<times> (panic + real list)" where
  "control_sequence sent lines =
     (sent @ [[CHR ''r'']],
      pbind (read_frame [] lines) (\<lambda>(f, rest). pbind (process_string f) (\<lambda>tm. Inr (telemetry_row tm))))"

section \<open>Thrust\<close>

text \<open>
  The body of \<open>for i in 0..load_cell_read.len()\<close> in the loop of \<open>main\<close>: each
  successful reading overwrites \<open>thrust\<close> with
  \<open>(1.0 / CALIBRATION_GRADIENTS[i]) * read_result + offset[i]\<close>.
\<close>

definition thrust_body :: "real list \<Rightarrow> (real, string) result list \<Rightarrow> nat \<Rightarrow> real \<Rightarrow> panic + real" where
  "thrust_body offs out i thrust =
     (case out ! i of
        Ok r \<Rightarrow>
          if i < length calibration_gradients \<and> i < length offs
          then Inr ((1 / calibration_gradients ! i) * r + offs ! i)
          else Inl IndexOutOfBounds
      | Err e \<Rightarrow> Inr thrust)"

text \<open>\<open>let mut thrust = 0.0\<close> at the top of every iteration, then the loop.\<close>

definition compute_thrust :: "real list \<Rightarrow> (real, string) result list \<Rightarrow> panic + real" where
  "compute_thrust offs out = try_for_range (length out) (thrust_body offs out) 0"

section \<open>The two threads\<close>

text \<open>Where the main thread is: before each statement of \<open>main\<close> that it executes next.\<close>

datatype main_pc =
    M_Calibrate | M_Initialise | M_Test | M_Increment | M_Control | M_Acquire | M_Exit
  | M_Done | M_Aborted

text \<open>The handler thread: waiting for a signal, or between its store and its port write.\<close>

datatype handler_pc = H_Wait | H_Exit

record ctl =
  mpc :: main_pc
  hpc :: handler_pc
  running :: bool
  throttle :: i32
  sent :: "string list"
  devs :: "hx711 list"
  offset :: "real list"
  telem :: "real list"
  rows :: "(i32 \<times> real \<times> real list) list"

text \<open>The process is alive until \<open>main\<close> returns or a thread panics.\<close>

definition alive :: "ctl \<Rightarrow> bool" where
  "alive s \<longleftrightarrow> mpc s \<noteq> M_Done \<and> mpc s \<noteq> M_Aborted"

text \<open>
  The state once the handler is installed: the load cells are created with their clock
  low, \<open>running\<close> is true, \<open>throttle_command\<close> is 0 and nothing has been sent.
\<close>

definition ctl_init :: "hx711 list \<Rightarrow> ctl" where
  "ctl_init ds =
     \<lparr>mpc = M_Calibrate, hpc = H_Wait, running = True, throttle = 0, sent = [],
      devs = map hx711_new ds, offset = [], telem = [], rows = []\<rparr>"

text \<open>
  One step of either thread. The main thread's steps follow \<open>main\<close>: calibrate,
  initialise, then \<open>while running && throttle_command < MAX_PWM\<close> with its body split
  at the port's lock; the handler's two steps are the store to \<open>running\<close> and
  \<open>exit_sequence\<close>.
\<close>

inductive ctl_step :: "ctl \<Rightarrow> ctl \<Rightarrow> bool" where
  calibrate:
    "mpc s = M_Calibrate \<Longrightarrow> calibrate_zero fs (devs s) = Inr (offs, ds') \<Longrightarrow>
     ctl_step s (s\<lparr>mpc := M_Initialise, offset := offs, devs := ds'\<rparr>)"
| calibrate_panic:
    "mpc s = M_Calibrate \<Longrightarrow> calibrate_zero fs (devs s) = Inl e \<Longrightarrow>
     ctl_step s (s\<lparr>mpc := M_Aborted\<rparr>)"
| initialise:
    "mpc s = M_Initialise \<Longrightarrow> ctl_step s (s\<lparr>mpc := M_Test, sent := initialise (sent s)\<rparr>)"
| test_go:
    "mpc s = M_Test \<Longrightarrow> running s \<Longrightarrow> sint (throttle s) < sint max_pwm \<Longrightarrow>
     ctl_step s (s\<lparr>mpc := M_Increment\<rparr>)"
| test_stop:
    "mpc s = M_Test \<Longrightarrow> \<not> (running s \<and> sint (throttle s) < sint max_pwm) \<Longrightarrow>
     ctl_step s (s\<lparr>mpc := M_Exit\<rparr>)"
| increment:
    "mpc s = M_Increment \<Longrightarrow> ctl_step s (s\<lparr>mpc := M_Control, throttle := throttle s + 50\<rparr>)"
| control:
    "mpc s = M_Control \<Longrightarrow> control_sequence (sent s) lines = (sent', Inr row) \<Longrightarrow>
     ctl_step s (s\<lparr>mpc := M_Acquire, sent := sent', telem := row\<rparr>)"
| control_panic:
    "mpc s = M_Control \<Longrightarrow> control_sequence (sent s) lines = (sent', Inl e) \<Longrightarrow>
     ctl_step s (s\<lparr>mpc := M_Aborted, sent := sent'\<rparr>)"
| acquire:
    "mpc s = M_Acquire \<Longrightarrow> read_multiple (new_conversions vcs (devs s)) = Inr (out, ds') \<Longrightarrow>
     compute_thrust (offset s) out = Inr th \<Longrightarrow>
     ctl_step s (s\<lparr>mpc := M_Test, devs := ds', rows := rows s @ [(throttle s, th, telem s)]\<rparr>)"
| acquire_panic:
    "mpc s = M_Acquire \<Longrightarrow> read_multiple (new_conversions vcs (devs s)) = Inl e \<Longrightarrow>
     ctl_step s (s\<lparr>mpc := M_Aborted\<rparr>)"
| thrust_panic:
    "mpc s = M_Acquire \<Longrightarrow> read_multiple (new_conversions vcs (devs s)) = Inr (out, ds') \<Longrightarrow>
     compute_thrust (offset s) out = Inl e \<Longrightarrow> ctl_step s (s\<lparr>mpc := M_Aborted\<rparr>)"
| exit:
    "mpc s = M_Exit \<Longrightarrow> ctl_step s (s\<lparr>mpc := M_Done, sent := exit_sequence (sent s)\<rparr>)"
| signal:
    "alive s \<Longrightarrow> hpc s = H_Wait \<Longrightarrow> ctl_step s (s\<lparr>hpc := H_Exit, running := False\<rparr>)"
| handler_exit:
    "alive s \<Longrightarrow> hpc s = H_Exit \<Longrightarrow> ctl_step s (s\<lparr>hpc := H_Wait, sent := exit_sequence (sent s)\<rparr>)"

text \<open>The states a run reaches from the start.\<close>

inductive reachable :: "hx711 list \<Rightarrow> ctl \<Rightarrow> bool" for ds where
  start: "reachable ds (ctl_init ds)"
| step: "reachable ds s \<Longrightarrow> ctl_step s t \<Longrightarrow> reachable ds t"

section \<open>Reference functions\<close>

text \<open>The number of throttle increments a list of commands holds.\<close>

definition increments :: "string list \<Rightarrow> nat" where
  "increments cmds = length (filter (\<lambda>c. c = [CHR ''r'']) cmds)"

text \<open>
  The step of the ramp the main thread is on: the increments sent, and one more
  between \<open>throttle_command += 50\<close> and the write of \<open>"r"\<close>.
\<close>

definition ramp_index :: "ctl \<Rightarrow> nat" where
  "ramp_index s = increments (sent s) + of_bool (mpc s = M_Control)"

text \<open>The throttle column of the rows written so far is \<open>50, 100, 150, \<dots>\<close>\<close>

definition ramp_rows :: "(i32 \<times> real \<times> real list) list \<Rightarrow> bool" where
  "ramp_rows rs \<longleftrightarrow> map (\<lambda>r. sint (fst r)) rs = map (\<lambda>i. 50 * (int i + 1)) [0..<length rs]"

section \<open>Invariants\<close>

text \<open>
  The throttle is \<open>50 k\<close> for the ramp index \<open>k \<le> 32\<close>; a row is written per
  completed step; before the ramp \<open>k = 0\<close>.
\<close>

definition ramp_inv :: "ctl \<Rightarrow> bool" where
  "ramp_inv s \<longleftrightarrow>
     ramp_index s \<le> 32 \<and> throttle s = of_nat (50 * ramp_index s) \<and>
     (mpc s = M_Increment \<longrightarrow> ramp_index s < 32) \<and>
     (mpc s = M_Control \<longrightarrow> 0 < ramp_index s) \<and>
     length (rows s) \<le> ramp_index s \<and>
     (mpc s \<noteq> M_Aborted \<longrightarrow>
        length (rows s) + of_bool (mpc s = M_Control \<or> mpc s = M_Acquire) = ramp_index s) \<and>
     ((mpc s = M_Calibrate \<or> mpc s = M_Initialise) \<longrightarrow> ramp_index s = 0)"

text \<open>Before the ramp, the port can only have received the handler's stop.\<close>

definition calib_inv :: "ctl \<Rightarrow> bool" where
  "calib_inv s \<longleftrightarrow> (mpc s = M_Calibrate \<longrightarrow> set (sent s) \<subseteq> {cmd_stop})"

text \<open>A finished \<open>main\<close> sent the stop command last.\<close>

definition stop_inv :: "ctl \<Rightarrow> bool" where
  "stop_inv s \<longleftrightarrow> (mpc s = M_Done \<longrightarrow> sent s \<noteq> [] \<and> last (sent s) = cmd_stop)"

text \<open>The invariants together.\<close>

definition ctl_inv :: "ctl \<Rightarrow> bool" where
  "ctl_inv s \<longleftrightarrow> ramp_inv s \<and> ramp_rows (rows s) \<and> calib_inv s \<and> stop_inv s"

text \<open>
  The commands of a run with no Ctrl-C: nothing before \<open>initialise\<close>, then the arm and
  handshake and one \<open>"r"\<close> per increment, and the stop once \<open>main\<close> has returned.
\<close>

definition quiet_sent :: "main_pc \<Rightarrow> nat \<Rightarrow> string list" where
  "quiet_sent pc k =
     (case pc of
        M_Calibrate \<Rightarrow> []
      | M_Initialise \<Rightarrow> []
      | M_Done \<Rightarrow> [[CHR '' ''], [CHR ''t'']] @ replicate k [CHR ''r''] @ [cmd_stop]
      | _ \<Rightarrow> [[CHR '' ''], [CHR ''t'']] @ replicate k [CHR ''r''])"

text \<open>
  While \<open>running\<close> is true the handler has not run: the port holds the commands of
  such a run, and \<open>main\<close> leaves the loop only at \<open>throttle_command = MAX_PWM\<close>.
\<close>

definition quiet_inv :: "ctl \<Rightarrow> bool" where
  "quiet_inv s \<longleftrightarrow>
     (running s \<longrightarrow>
        hpc s = H_Wait \<and>
        (mpc s \<noteq> M_Aborted \<longrightarrow> sent s = quiet_sent (mpc s) (increments (sent s))) \<and>
        ((mpc s = M_Exit \<or> mpc s = M_Done) \<longrightarrow> ramp_index s = 32))"

section \<open>The ramp of the specification\<close>

text \<open>
  The abstract machine of the specification's control loop (\<section>5): before the ramp,
  ramping at step \<open>k\<close>, shutting down, stopped, or failed. The ramp advances one
  step at a time up to the ceiling \<open>32 \<times> 50 = MAX_PWM\<close>; a panic can end any state
  but the last.
\<close>

datatype ramp_phase = Before | Ramping | Shutting | Stopped | Failed

inductive ramp_spec :: "ramp_phase \<times> nat \<Rightarrow> ramp_phase \<times> nat \<Rightarrow> bool" where
  start_ramp: "ramp_spec (Before, 0) (Ramping, 0)"
| advance: "k < 32 \<Longrightarrow> ramp_spec (Ramping, k) (Ramping, Suc k)"
| leave: "ramp_spec (Ramping, k) (Shutting, k)"
| stop: "ramp_spec (Shutting, k) (Stopped, k)"
| fail: "p \<noteq> Stopped \<Longrightarrow> ramp_spec (p, k) (Failed, k)"

primrec phase_of :: "main_pc \<Rightarrow> ramp_phase" where
  "phase_of M_Calibrate = Before"
| "phase_of M_Initialise = Before"
| "phase_of M_Test = Ramping"
| "phase_of M_Increment = Ramping"
| "phase_of M_Control = Ramping"
| "phase_of M_Acquire = Ramping"
| "phase_of M_Exit = Shutting"
| "phase_of M_Done = Stopped"
| "phase_of M_Aborted = Failed"

text \<open>The abstraction of a state of the program: its phase and its ramp step.\<close>

definition ctl_abs :: "ctl \<Rightarrow> ramp_phase \<times> nat" where
  "ctl_abs s = (phase_of (mpc s), ramp_index s)"

section \<open>Termination measure\<close>

text \<open>
  How many more steps the main thread can take: four per remaining iteration of the
  ramp and two to leave it, counted from its position in the loop body.
\<close>

definition main_remaining :: "ctl \<Rightarrow> nat" where
  "main_remaining s =
     (let k = ramp_index s in
      case mpc s of
        M_Calibrate \<Rightarrow> 4 * 32 + 4
      | M_Initialise \<Rightarrow> 4 * 32 + 3
      | M_Test \<Rightarrow> 4 * (32 - k) + 2
      | M_Increment \<Rightarrow> 4 * (32 - k) + 1
      | M_Control \<Rightarrow> 4 * (33 - k)
      | M_Acquire \<Rightarrow> 4 * (33 - k) - 1
      | M_Exit \<Rightarrow> 1
      | M_Done \<Rightarrow> 0
      | M_Aborted \<Rightarrow> 0)"

section \<open>Concrete runs\<close>

text \<open>States of the runs the properties are witnessed on: no load cells, one ramp step.\<close>

abbreviation frame0 :: "char list" where
  "frame0 \<equiv> concat (map hex_byte (replicate 10 0)) @ [CHR 0x0D, CHR 0x0A]"

abbreviation st_increment :: ctl where
  "st_increment \<equiv> \<lparr>mpc = M_Increment, hpc = H_Wait, running = True, throttle = 0,
     sent = [[CHR '' ''], [CHR ''t'']], devs = [], offset = [], telem = [], rows = []\<rparr>"

abbreviation st_control :: ctl where
  "st_control \<equiv> \<lparr>mpc = M_Control, hpc = H_Wait, running = True, throttle = 50,
     sent = [[CHR '' ''], [CHR ''t'']], devs = [], offset = [], telem = [], rows = []\<rparr>"

abbreviation st_race :: ctl where
  "st_race \<equiv> \<lparr>mpc = M_Acquire, hpc = H_Wait, running = False, throttle = 50,
     sent = [[CHR '' ''], [CHR ''t''], cmd_stop, [CHR ''r'']],
     devs = [], offset = [], telem = telemetry_row (telemetry_of (replicate 10 0)), rows = []\<rparr>"

abbreviation st_race_test :: ctl where
  "st_race_test \<equiv> \<lparr>mpc = M_Test, hpc = H_Wait, running = False, throttle = 50,
     sent = [[CHR '' ''], [CHR ''t''], cmd_stop, [CHR ''r'']],
     devs = [], offset = [], telem = telemetry_row (telemetry_of (replicate 10 0)),
     rows = [(50, 0, telemetry_row (telemetry_of (replicate 10 0)))]\<rparr>"

abbreviation st_race_exit :: ctl where
  "st_race_exit \<equiv> st_race_test\<lparr>mpc := M_Exit\<rparr>"

abbreviation st_race_done :: ctl where
  "st_race_done \<equiv> \<lparr>mpc = M_Done, hpc = H_Wait, running = False, throttle = 50,
     sent = [[CHR '' ''], [CHR ''t''], cmd_stop, [CHR ''r''], cmd_stop],
     devs = [], offset = [], telem = telemetry_row (telemetry_of (replicate 10 0)),
     rows = [(50, 0, telemetry_row (telemetry_of (replicate 10 0)))]\<rparr>"

abbreviation st_abort :: ctl where
  "st_abort \<equiv> \<lparr>mpc = M_Aborted, hpc = H_Wait, running = True, throttle = 50,
     sent = [[CHR '' ''], [CHR ''t''], [CHR ''r'']], devs = [], offset = [], telem = [], rows = []\<rparr>"

abbreviation st_early_stop :: ctl where
  "st_early_stop \<equiv> \<lparr>mpc = M_Done, hpc = H_Wait, running = False, throttle = 0,
     sent = [cmd_stop, [CHR '' ''], [CHR ''t''], cmd_stop], devs = [], offset = [], telem = [], rows = []\<rparr>"

text \<open>The end of a run with no load cells and no Ctrl-C: the whole ramp.\<close>

abbreviation st_complete :: ctl where
  "st_complete \<equiv> \<lparr>mpc = M_Done, hpc = H_Wait, running = True, throttle = 1600,
     sent = [[CHR '' ''], [CHR ''t'']] @ replicate 32 [CHR ''r''] @ [cmd_stop],
     devs = [], offset = [], telem = telemetry_row (telemetry_of (replicate 10 0)),
     rows = map (\<lambda>i. (of_nat (50 * Suc i), 0, telemetry_row (telemetry_of (replicate 10 0)))) [0..<32]\<rparr>"

section \<open>Lemmas\<close>

lemma sint_ramp: "k \<le> 32 \<Longrightarrow> sint (of_nat (50 * k) :: i32) = int (50 * k)"
  by (rule sint_of_nat_i32) simp

lemma increments_append [simp]: "increments (xs @ ys) = increments xs + increments ys"
  by (simp add: increments_def)

lemma increments_cmds [simp]:
  "increments [cmd_stop] = 0" "increments [[CHR '' ''], [CHR ''t'']] = 0" "increments [[CHR ''r'']] = 1"
  by (simp_all add: increments_def cmd_stop_def)

lemma control_sequence_sent: "fst (control_sequence cmds lines) = cmds @ [[CHR ''r'']]"
  by (simp add: control_sequence_def)

lemma increments_Nil: "increments [] = 0"
  by (simp add: increments_def)

lemma increments_Cons:
  "increments (c # cmds) = of_bool (c = [CHR ''r'']) + increments cmds"
  by (simp add: increments_def)

lemma increments_replicate [simp]: "increments (replicate k [CHR ''r'']) = k"
  by (simp add: increments_def)

lemmas increments_simps = increments_Nil increments_Cons

lemma ramp_inv_step:
  assumes "ctl_step s s'" and "ramp_inv s"
  shows "ramp_inv s'"
  using assms
proof (induction rule: ctl_step.induct)
  case (test_go s)
  then have "sint (throttle s) = int (50 * ramp_index s)"
    by (simp only: ramp_inv_def sint_ramp)
  then have "ramp_index s < 32"
    using test_go.hyps(3) by (simp add: max_pwm_def)
  then show ?case
    using test_go by (simp add: ramp_inv_def ramp_index_def)
next
  case (increment s)
  then show ?case
    by (simp add: ramp_inv_def ramp_index_def)
next
  case (control s lines sent' row)
  then show ?case
    using control_sequence_sent [of "sent s" lines] by (simp add: ramp_inv_def ramp_index_def)
next
  case (control_panic s lines sent' e)
  then show ?case
    using control_sequence_sent [of "sent s" lines] by (simp add: ramp_inv_def ramp_index_def)
qed (simp_all add: ramp_inv_def ramp_index_def exit_sequence_def initialise_def)

lemma ramp_rows_step:
  assumes "ctl_step s s'" and "ramp_inv s" and "ramp_rows (rows s)"
  shows "ramp_rows (rows s')"
  using assms
proof (induction rule: ctl_step.induct)
  case (acquire s vcs out ds' th)
  then have t: "sint (throttle s) = int (50 * ramp_index s)" and l: "ramp_index s = Suc (length (rows s))"
    by (simp_all only: ramp_inv_def sint_ramp) simp
  then show ?case
    using acquire.prems(2) by (simp add: ramp_rows_def l)
qed simp_all

lemma calib_inv_step: "ctl_step s s' \<Longrightarrow> calib_inv s \<Longrightarrow> calib_inv s'"
  by (induction rule: ctl_step.induct) (auto simp: calib_inv_def exit_sequence_def)

lemma stop_inv_step: "ctl_step s s' \<Longrightarrow> stop_inv s \<Longrightarrow> stop_inv s'"
  by (induction rule: ctl_step.induct) (auto simp: stop_inv_def exit_sequence_def alive_def)

lemma ctl_inv_init: "ctl_inv (ctl_init ds)"
  by (simp add: ctl_inv_def ctl_init_def ramp_inv_def ramp_index_def ramp_rows_def
                calib_inv_def stop_inv_def increments_def)

lemma ctl_inv_step: "ctl_step s s' \<Longrightarrow> ctl_inv s \<Longrightarrow> ctl_inv s'"
  unfolding ctl_inv_def
  using ramp_inv_step ramp_rows_step calib_inv_step stop_inv_step by blast

lemma reachable_ctl_inv: "reachable ds s \<Longrightarrow> ctl_inv s"
proof (induction rule: reachable.induct)
  case start
  show ?case by (rule ctl_inv_init)
next
  case (step s t)
  then show ?case by (blast intro: ctl_inv_step)
qed

lemma reachable_ramp_inv: "reachable ds s \<Longrightarrow> ramp_inv s"
  using reachable_ctl_inv by (simp add: ctl_inv_def)

lemma reachable_sint_throttle:
  "reachable ds s \<Longrightarrow> sint (throttle s) = int (50 * ramp_index s) \<and> ramp_index s \<le> 32"
  using reachable_ramp_inv [of ds s] by (simp only: ramp_inv_def sint_ramp)

lemma quiet_inv_step:
  assumes "ctl_step s s'" and "ramp_inv s" and "quiet_inv s"
  shows "quiet_inv s'"
  using assms
proof (induction rule: ctl_step.induct)
  case (test_stop s)
  then show ?case
  proof (cases "running s")
    case True
    have "sint (throttle s) = int (50 * ramp_index s)" and "ramp_index s \<le> 32"
      using test_stop.prems(1) by (simp_all only: ramp_inv_def sint_ramp)
    then have "ramp_index s = 32"
      using True test_stop.hyps(2) by (simp add: max_pwm_def)
    then show ?thesis
      using test_stop by (simp add: quiet_inv_def quiet_sent_def increments_simps ramp_index_def)
  qed (simp add: quiet_inv_def)
next
  case (control s lines sent' row)
  have e: "sent' = sent s @ [[CHR ''r'']]"
    using control.hyps(2) control_sequence_sent [of "sent s" lines] by simp
  show ?case
  proof (cases "running s")
    case True
    then have h: "hpc s = H_Wait" and "sent s = quiet_sent M_Control (increments (sent s))"
      using control.prems(2) control.hyps(1) by (simp_all add: quiet_inv_def)
    then obtain k where k: "sent s = [[CHR '' ''], [CHR ''t'']] @ replicate k [CHR ''r'']"
      by (auto simp: quiet_sent_def)
    show ?thesis
      using True h e k by (simp add: quiet_inv_def quiet_sent_def increments_simps replicate_append_same)
  qed (simp add: quiet_inv_def)
next
  case (exit s)
  then show ?case
    by (auto simp: quiet_inv_def quiet_sent_def increments_simps ramp_index_def exit_sequence_def cmd_stop_def)
qed (auto simp: quiet_inv_def quiet_sent_def increments_simps ramp_index_def initialise_def)

lemma reachable_quiet_inv: "reachable ds s \<Longrightarrow> quiet_inv s"
proof (induction rule: reachable.induct)
  case start
  show ?case by (simp add: quiet_inv_def ctl_init_def quiet_sent_def)
next
  case (step s t)
  then show ?case
    using reachable_ramp_inv quiet_inv_step by blast
qed

lemma ctl_step_ramp_index: "ctl_step s s' \<Longrightarrow> ramp_index s \<le> ramp_index s'"
proof (induction rule: ctl_step.induct)
  case (control s lines sent' row)
  then show ?case
    using control_sequence_sent [of "sent s" lines] by (simp add: ramp_index_def)
next
  case (control_panic s lines sent' e)
  then show ?case
    using control_sequence_sent [of "sent s" lines] by (simp add: ramp_index_def)
qed (simp_all add: ramp_index_def initialise_def exit_sequence_def)

lemma ctl_step_refines:
  assumes "ramp_inv s" and "ctl_step s s'"
  shows "ramp_spec (ctl_abs s) (ctl_abs s') \<or> ctl_abs s' = ctl_abs s"
  using assms(2,1)
proof (induction rule: ctl_step.induct)
  case (increment s)
  then show ?case
    by (simp add: ctl_abs_def ramp_index_def ramp_inv_def ramp_spec.advance)
next
  case (control s lines sent' row)
  then show ?case
    using control_sequence_sent [of "sent s" lines] by (simp add: ctl_abs_def ramp_index_def)
next
  case (control_panic s lines sent' e)
  then show ?case
    using control_sequence_sent [of "sent s" lines]
    by (simp add: ctl_abs_def ramp_index_def ramp_spec.fail)
next
  case (initialise s)
  then show ?case
    by (simp add: ctl_abs_def ramp_index_def ramp_inv_def initialise_def ramp_spec.start_ramp)
qed (auto simp: ctl_abs_def ramp_index_def exit_sequence_def intro: ramp_spec.intros)

lemma main_remaining_step:
  assumes "ramp_inv s" and "ctl_step s s'"
  shows "(mpc s' = mpc s \<and> main_remaining s' = main_remaining s) \<or>
         (mpc s' \<noteq> mpc s \<and> main_remaining s' < main_remaining s)"
  using assms(2,1)
proof (induction rule: ctl_step.induct)
  case (control s lines sent' row)
  then show ?case
    using control_sequence_sent [of "sent s" lines]
    by (simp add: main_remaining_def ramp_index_def ramp_inv_def)
next
  case (control_panic s lines sent' e)
  then show ?case
    using control_sequence_sent [of "sent s" lines]
    by (simp add: main_remaining_def ramp_index_def ramp_inv_def)
qed (auto simp: main_remaining_def ramp_index_def ramp_inv_def initialise_def exit_sequence_def)

lemma thrust_body_single:
  "offs \<noteq> [] \<Longrightarrow> thrust_body offs [x] 0 t =
     Inr (case x of Ok r \<Rightarrow> (1 / calibration_gradients ! 0) * r + offs ! 0 | Err e \<Rightarrow> t)"
  by (cases x) (simp_all add: thrust_body_def calibration_gradients_def)

lemma length_hex_bytes [simp]: "length (concat (map hex_byte bs)) = 2 * length bs"
  by (induction bs) (simp_all add: hex_byte_def)

lemma control_sequence_frame:
  assumes "length bs = 10"
  shows "control_sequence cmds [concat (map hex_byte bs) @ [CHR 0x0D, CHR 0x0A]] =
           (cmds @ [[CHR ''r'']], Inr (telemetry_row (telemetry_of bs)))"
  using assms by (simp add: control_sequence_def process_string_def trim_hex_crlf chunks2_hex decode_chunks_hex)

lemma control_sequence_misframed:
  assumes "length l \<noteq> 22" and "22 < length l + length f"
  shows "control_sequence cmds (l # f # ls) = (cmds @ [[CHR ''r'']], Inl (Expect ''Read failed !''))"
  using assms by (simp add: control_sequence_def read_frame_overlong Let_def)

lemma read_multiple_nil: "read_multiple [] = Inr ([], [])"
  using read_multiple_idle [of "[]"] by simp

lemma calibrate_zero_nil: "calibrate_zero [] [] = Inr ([], [])"
  by (simp add: calibrate_zero_def calibrate_stats_def)

lemma compute_thrust_nil: "compute_thrust offs [] = Inr 0"
  by (simp add: compute_thrust_def)

lemma reachable_step_eq: "reachable ds s \<Longrightarrow> ctl_step s t \<Longrightarrow> t = t' \<Longrightarrow> reachable ds t'"
  by (blast intro: reachable.step)

text \<open>A run with no load cells: calibrate, initialise, one increment, then a signal.\<close>

lemma run_increment:
  "reachable [] \<lparr>mpc = M_Increment, hpc = H_Wait, running = True, throttle = 0, sent = [[CHR '' ''], [CHR ''t'']],
                 devs = [], offset = [], telem = [], rows = []\<rparr>"
proof -
  let ?s0 = "ctl_init []"
  have r1: "reachable [] (?s0\<lparr>mpc := M_Initialise, offset := [], devs := []\<rparr>)"
    by (rule reachable.step [OF reachable.start], rule ctl_step.calibrate [where fs = "[]"])
       (simp_all add: ctl_init_def calibrate_zero_nil)
  have r2: "reachable [] (?s0\<lparr>mpc := M_Test, offset := [], devs := [], sent := [[CHR '' ''], [CHR ''t'']]\<rparr>)"
    by (rule reachable_step_eq [OF r1 ctl_step.initialise]) (simp_all add: ctl_init_def initialise_def)
  show ?thesis
    by (rule reachable_step_eq [OF r2 ctl_step.test_go]) (simp_all add: ctl_init_def max_pwm_def)
qed

lemma step_increment:
  "ctl_step \<lparr>mpc = M_Increment, hpc = H_Wait, running = True, throttle = 0, sent = [[CHR '' ''], [CHR ''t'']],
             devs = [], offset = [], telem = [], rows = []\<rparr>
            \<lparr>mpc = M_Control, hpc = H_Wait, running = True, throttle = 50, sent = [[CHR '' ''], [CHR ''t'']],
             devs = [], offset = [], telem = [], rows = []\<rparr>"
  using ctl_step.increment [of "\<lparr>mpc = M_Increment, hpc = H_Wait, running = True, throttle = 0,
      sent = [[CHR '' ''], [CHR ''t'']], devs = [], offset = [], telem = [], rows = []\<rparr>"] by simp

lemma run_ramp_start:
  "reachable [] \<lparr>mpc = M_Control, hpc = H_Wait, running = True, throttle = 50, sent = [[CHR '' ''], [CHR ''t'']],
                 devs = [], offset = [], telem = [], rows = []\<rparr>"
  using run_increment step_increment by (rule reachable.step)

text \<open>The handler's stop falls between the loop test and the write of \<open>"r"\<close>.\<close>

lemma run_race:
  "reachable [] \<lparr>mpc = M_Acquire, hpc = H_Wait, running = False, throttle = 50,
                 sent = [[CHR '' ''], [CHR ''t''], cmd_stop, [CHR ''r'']],
                 devs = [], offset = [], telem = telemetry_row (telemetry_of (replicate 10 0)), rows = []\<rparr>"
proof -
  let ?s = "\<lparr>mpc = M_Control, hpc = H_Wait, running = True, throttle = 50, sent = [[CHR '' ''], [CHR ''t'']],
             devs = [], offset = [], telem = [], rows = []\<rparr>"
  have r1: "reachable [] (?s\<lparr>hpc := H_Exit, running := False\<rparr>)"
    by (rule reachable_step_eq [OF run_ramp_start ctl_step.signal]) (simp_all add: alive_def)
  have r2: "reachable [] (?s\<lparr>hpc := H_Wait, running := False, sent := [[CHR '' ''], [CHR ''t''], cmd_stop]\<rparr>)"
    by (rule reachable_step_eq [OF r1 ctl_step.handler_exit]) (simp_all add: alive_def exit_sequence_def)
  show ?thesis
    by (rule reachable_step_eq [OF r2 ctl_step.control [where lines = "[frame0]"]])
       (use control_sequence_frame [of "replicate 10 0"] in simp_all)
qed

text \<open>The telemetry reply misframed: the reader panics after the increment.\<close>

lemma length_frame0: "length frame0 = 22"
  by (simp only: length_append length_hex_bytes length_replicate) simp

lemma run_abort:
  "reachable [] \<lparr>mpc = M_Aborted, hpc = H_Wait, running = True, throttle = 50,
                 sent = [[CHR '' ''], [CHR ''t''], [CHR ''r'']],
                 devs = [], offset = [], telem = [], rows = []\<rparr>"
proof -
  have cs: "control_sequence [[CHR '' ''], [CHR ''t'']] [''0'', frame0] =
              ([[CHR '' ''], [CHR ''t''], [CHR ''r'']], Inl (Expect ''Read failed !''))"
    using control_sequence_misframed [of "''0''" frame0 "[[CHR '' ''], [CHR ''t'']]" "[]"] length_frame0
    by simp
  show ?thesis
    apply (rule reachable_step_eq [OF run_ramp_start ctl_step.control_panic [where lines = "[''0'', frame0]"]])
      apply simp
     apply (simp only: ctl.select_convs cs)
    apply simp
    done
qed

text \<open>A signal during calibration: the stop, then the arm and handshake, then the stop.\<close>

lemma run_signal_in_calibration:
  "reachable [] \<lparr>mpc = M_Done, hpc = H_Wait, running = False, throttle = 0,
                 sent = [cmd_stop, [CHR '' ''], [CHR ''t''], cmd_stop],
                 devs = [], offset = [], telem = [], rows = []\<rparr>"
proof -
  let ?s0 = "ctl_init []"
  have r1: "reachable [] (?s0\<lparr>hpc := H_Exit, running := False\<rparr>)"
    by (rule reachable_step_eq [OF reachable.start ctl_step.signal]) (simp_all add: alive_def ctl_init_def)
  have r2: "reachable [] (?s0\<lparr>running := False, sent := [cmd_stop]\<rparr>)"
    by (rule reachable_step_eq [OF r1 ctl_step.handler_exit]) (simp_all add: alive_def ctl_init_def exit_sequence_def)
  have r3: "reachable [] (?s0\<lparr>running := False, sent := [cmd_stop], mpc := M_Initialise\<rparr>)"
    by (rule reachable_step_eq [OF r2 ctl_step.calibrate [where fs = "[]"]])
       (simp_all add: ctl_init_def calibrate_zero_nil)
  have r4: "reachable [] (?s0\<lparr>running := False, sent := [cmd_stop, [CHR '' ''], [CHR ''t'']], mpc := M_Test\<rparr>)"
    by (rule reachable_step_eq [OF r3 ctl_step.initialise]) (simp_all add: ctl_init_def initialise_def)
  have r5: "reachable [] (?s0\<lparr>running := False, sent := [cmd_stop, [CHR '' ''], [CHR ''t'']], mpc := M_Exit\<rparr>)"
    by (rule reachable_step_eq [OF r4 ctl_step.test_stop]) (simp_all add: ctl_init_def)
  show ?thesis
    by (rule reachable_step_eq [OF r5 ctl_step.exit]) (simp_all add: ctl_init_def exit_sequence_def)
qed

text \<open>The race run continued: the row is written, the loop sees the flag, \<open>main\<close> stops.\<close>

lemma run_race_test: "reachable [] st_race_test"
  by (rule reachable_step_eq [OF run_race ctl_step.acquire [where vcs = "[]" and out = "[]" and th = 0]])
     (simp_all add: new_conversions_def read_multiple_nil compute_thrust_nil)

lemma steps_race_stop: "ctl_step st_race_test st_race_exit" "ctl_step st_race_exit st_race_done"
  using ctl_step.test_stop [of st_race_test] ctl_step.exit [of st_race_exit]
  by (simp_all add: exit_sequence_def)

lemma run_race_done: "reachable [] st_race_done"
  using reachable.step [OF reachable.step [OF run_race_test steps_race_stop(1)] steps_race_stop(2)] .

subsection \<open>The ramp run to its end\<close>

lemma reachable_steps:
  assumes "ctl_step\<^sup>*\<^sup>* s t" and "reachable ds s"
  shows "reachable ds t"
  using assms by (induction rule: rtranclp_induct) (auto intro: reachable.step)

text \<open>One iteration of the ramp with one load cell, a ready chip and a well-formed reply.\<close>

lemma ramp_iteration:
  assumes "mpc s = M_Test" and "running s" and "sint (throttle s) < 1600"
    and "devs s = [d]" and "\<not> clock_pin d" and "offset s = [off]"
  shows "\<exists>s' d'. ctl_step\<^sup>*\<^sup>* s s' \<and> mpc s' = M_Test \<and> running s' \<and> hpc s' = hpc s \<and>
           throttle s' = throttle s + 50 \<and> sent s' = sent s @ [[CHR ''r'']] \<and>
           length (rows s') = Suc (length (rows s)) \<and> offset s' = [off] \<and>
           devs s' = [d'] \<and> \<not> clock_pin d'"
proof -
  obtain d' where rm: "read_multiple (new_conversions [(0, 0)] [d]) = Inr (map conversion_reading [(0, 0)], [d'])"
    and k: "\<not> clock_pin d'"
    using read_multiple_new_conversions [of "[(0, 0)]" "[d]"] assms(5) by (auto simp: length_Suc_conv)
  let ?s1 = "s\<lparr>mpc := M_Increment\<rparr>"
  let ?s2 = "?s1\<lparr>mpc := M_Control, throttle := throttle s + 50\<rparr>"
  let ?row = "telemetry_row (telemetry_of (replicate 10 0))"
  let ?s3 = "?s2\<lparr>mpc := M_Acquire, sent := sent s @ [[CHR ''r'']], telem := ?row\<rparr>"
  let ?th = off
  let ?s4 = "?s3\<lparr>mpc := M_Test, devs := [d'], rows := rows s @ [(throttle s + 50, ?th, ?row)]\<rparr>"
  have t1: "ctl_step s ?s1"
    using assms(1-3) by (intro ctl_step.test_go) (simp_all add: max_pwm_def)
  have t2: "ctl_step ?s1 ?s2"
    using ctl_step.increment [of ?s1] by simp
  have cs: "control_sequence (sent s) [frame0] = (sent s @ [[CHR ''r'']], Inr ?row)"
    by (rule control_sequence_frame) simp
  have t3: "ctl_step ?s2 ?s3"
    using ctl_step.control [of ?s2 "[frame0]" "sent s @ [[CHR ''r'']]" ?row] cs by simp
  have c0: "conversion_reading (0, 0) = Ok 0"
    by (simp add: conversion_reading_def)
  have ct: "compute_thrust [off] (map conversion_reading [(0, 0)]) = Inr ?th"
    using thrust_body_single [of "[off]" "Ok 0" 0] c0 by (simp add: compute_thrust_def)
  have t4: "ctl_step ?s3 ?s4"
    using ctl_step.acquire [of ?s3 "[(0, 0)]" "map conversion_reading [(0, 0)]" "[d']" ?th] rm ct assms(4,6)
    by simp
  have "ctl_step\<^sup>*\<^sup>* s ?s4"
    using t1 t2 t3 t4 by (meson rtranclp.rtrancl_into_rtrancl rtranclp.rtrancl_refl)
  then show ?thesis
    using assms k by (intro exI [of _ ?s4] exI [of _ d']) simp
qed


lemma ramp_iterations:
  assumes "mpc s = M_Test" and "running s" and "throttle s = of_nat (50 * k)" and "k + n = 32"
    and "devs s = [d]" and "\<not> clock_pin d" and "offset s = [off]"
  shows "\<exists>s' d'. ctl_step\<^sup>*\<^sup>* s s' \<and> mpc s' = M_Test \<and> running s' \<and> hpc s' = hpc s \<and>
           throttle s' = of_nat (50 * 32) \<and> sent s' = sent s @ replicate n [CHR ''r''] \<and>
           length (rows s') = length (rows s) + n \<and> offset s' = [off] \<and>
           devs s' = [d'] \<and> \<not> clock_pin d'"
  using assms
proof (induction n arbitrary: s k d)
  case 0
  then show ?case by (intro exI [of _ s] exI [of _ d]) simp
next
  case (Suc n)
  have "sint (throttle s) = int (50 * k)"
    using Suc.prems(3,4) by (simp only: sint_ramp)
  then have "sint (throttle s) < 1600"
    using Suc.prems(4) by simp
  then obtain s1 d1 where s1: "ctl_step\<^sup>*\<^sup>* s s1" "mpc s1 = M_Test" "running s1" "hpc s1 = hpc s"
      "throttle s1 = throttle s + 50" "sent s1 = sent s @ [[CHR ''r'']]"
      "length (rows s1) = Suc (length (rows s))" "offset s1 = [off]" "devs s1 = [d1]" "\<not> clock_pin d1"
    using ramp_iteration [of s d off] Suc.prems by blast
  have "throttle s1 = of_nat (50 * Suc k)"
    using s1(5) Suc.prems(3) by simp
  then obtain s2 d2 where "ctl_step\<^sup>*\<^sup>* s1 s2" "mpc s2 = M_Test" "running s2" "hpc s2 = hpc s1"
      "throttle s2 = of_nat (50 * 32)" "sent s2 = sent s1 @ replicate n [CHR ''r'']"
      "length (rows s2) = length (rows s1) + n" "offset s2 = [off]" "devs s2 = [d2]" "\<not> clock_pin d2"
    using Suc.IH [of s1 "Suc k" d1] s1 Suc.prems(4) by auto
  then show ?case
    using s1 by (intro exI [of _ s2] exI [of _ d2]) (auto simp: replicate_append_same)
qed

text \<open>The whole ramp with no load cells and no Ctrl-C.\<close>

lemma ramp_iteration_nil:
  assumes "k < 32"
  shows "ctl_step\<^sup>*\<^sup>* \<lparr>mpc = M_Test, hpc = H_Wait, running = True, throttle = of_nat (50 * k), sent = cs,
                      devs = [], offset = [], telem = tr, rows = rs\<rparr>
                    \<lparr>mpc = M_Test, hpc = H_Wait, running = True, throttle = of_nat (50 * Suc k),
                      sent = cs @ [[CHR ''r'']], devs = [], offset = [],
                      telem = telemetry_row (telemetry_of (replicate 10 0)),
                      rows = rs @ [(of_nat (50 * Suc k), 0, telemetry_row (telemetry_of (replicate 10 0)))]\<rparr>"
    (is "ctl_step\<^sup>*\<^sup>* ?s ?s4")
proof -
  let ?row = "telemetry_row (telemetry_of (replicate 10 0))"
  let ?s1 = "?s\<lparr>mpc := M_Increment\<rparr>"
  let ?s2 = "?s1\<lparr>mpc := M_Control, throttle := of_nat (50 * k) + 50\<rparr>"
  let ?s3 = "?s2\<lparr>mpc := M_Acquire, sent := cs @ [[CHR ''r'']], telem := ?row\<rparr>"
  have th: "(of_nat (50 * k) :: i32) + 50 = of_nat (50 * Suc k)"
    by simp
  have "sint (of_nat (50 * k) :: i32) = int (50 * k)"
    using assms by (simp only: sint_ramp)
  then have t1: "ctl_step ?s ?s1"
    using assms by (intro ctl_step.test_go) (simp_all add: max_pwm_def)
  have t2: "ctl_step ?s1 ?s2"
    using ctl_step.increment [of ?s1] by simp
  have cs: "control_sequence cs [frame0] = (cs @ [[CHR ''r'']], Inr ?row)"
    by (rule control_sequence_frame) simp
  have t3: "ctl_step ?s2 ?s3"
    using ctl_step.control [of ?s2 "[frame0]" "cs @ [[CHR ''r'']]" ?row] cs by simp
  have t4: "ctl_step ?s3 ?s4"
    using ctl_step.acquire [of ?s3 "[]" "[]" "[]" 0] th
    by (simp add: new_conversions_def read_multiple_nil compute_thrust_nil add.commute)
  show ?thesis
    using t1 t2 t3 t4 by (meson rtranclp.rtrancl_into_rtrancl rtranclp.rtrancl_refl)
qed

lemma ramp_iterations_nil:
  assumes "k + n = 32"
  shows "ctl_step\<^sup>*\<^sup>* \<lparr>mpc = M_Test, hpc = H_Wait, running = True, throttle = of_nat (50 * k), sent = cs,
                      devs = [], offset = [], telem = tr, rows = rs\<rparr>
                    \<lparr>mpc = M_Test, hpc = H_Wait, running = True, throttle = of_nat (50 * 32),
                      sent = cs @ replicate n [CHR ''r''], devs = [], offset = [],
                      telem = (if n = 0 then tr else telemetry_row (telemetry_of (replicate 10 0))),
                      rows = rs @ map (\<lambda>i. (of_nat (50 * (k + Suc i)), 0,
                                                 telemetry_row (telemetry_of (replicate 10 0)))) [0..<n]\<rparr>"
  using assms
proof (induction n arbitrary: k cs tr rs)
  case 0
  then show ?case by simp
next
  case (Suc n)
  have "k < 32"
    using Suc.prems by simp
  then have s1: "ctl_step\<^sup>*\<^sup>* \<lparr>mpc = M_Test, hpc = H_Wait, running = True, throttle = of_nat (50 * k), sent = cs,
                      devs = [], offset = [], telem = tr, rows = rs\<rparr>
                    \<lparr>mpc = M_Test, hpc = H_Wait, running = True, throttle = of_nat (50 * Suc k),
                      sent = cs @ [[CHR ''r'']], devs = [], offset = [],
                      telem = telemetry_row (telemetry_of (replicate 10 0)),
                      rows = rs @ [(of_nat (50 * Suc k), 0, telemetry_row (telemetry_of (replicate 10 0)))]\<rparr>"
    by (rule ramp_iteration_nil)
  have "Suc k + n = 32"
    using Suc.prems by simp
  note s2 = Suc.IH [OF this, of "cs @ [[CHR ''r'']]" "telemetry_row (telemetry_of (replicate 10 0))"
                     "rs @ [(of_nat (50 * Suc k), 0, telemetry_row (telemetry_of (replicate 10 0)))]"]
  show ?case
    using rtranclp_trans [OF s1 s2] by (simp add: replicate_append_same map_upt_Suc del: upt_Suc)
qed

lemma run_ramp_test:
  "reachable [] \<lparr>mpc = M_Test, hpc = H_Wait, running = True, throttle = 0, sent = [[CHR '' ''], [CHR ''t'']],
                 devs = [], offset = [], telem = [], rows = []\<rparr>"
proof -
  let ?s0 = "ctl_init []"
  have r1: "reachable [] (?s0\<lparr>mpc := M_Initialise, offset := [], devs := []\<rparr>)"
    by (rule reachable.step [OF reachable.start], rule ctl_step.calibrate [where fs = "[]"])
       (simp_all add: ctl_init_def calibrate_zero_nil)
  show ?thesis
    by (rule reachable_step_eq [OF r1 ctl_step.initialise]) (simp_all add: ctl_init_def initialise_def)
qed

lemma run_complete: "reachable [] st_complete"
proof -
  let ?s32 = "\<lparr>mpc = M_Test, hpc = H_Wait, running = True, throttle = of_nat (50 * 32) :: i32,
                sent = [[CHR '' ''], [CHR ''t'']] @ replicate 32 [CHR ''r''], devs = [], offset = [],
                telem = telemetry_row (telemetry_of (replicate 10 0)),
                rows = map (\<lambda>i. (of_nat (50 * Suc i), 0, telemetry_row (telemetry_of (replicate 10 0)))) [0..<32]\<rparr>"
  have "ctl_step\<^sup>*\<^sup>* \<lparr>mpc = M_Test, hpc = H_Wait, running = True, throttle = 0, sent = [[CHR '' ''], [CHR ''t'']],
                 devs = [], offset = [], telem = [], rows = []\<rparr> ?s32"
    using ramp_iterations_nil [of 0 32 "[[CHR '' ''], [CHR ''t'']]" "[]" "[]"] by simp
  then have r: "reachable [] ?s32"
    using run_ramp_test by (rule reachable_steps)
  have r2: "reachable [] (?s32\<lparr>mpc := M_Exit\<rparr>)"
    by (rule reachable_step_eq [OF r ctl_step.test_stop]) (simp_all add: max_pwm_def)
  show ?thesis
    by (rule reachable_step_eq [OF r2 ctl_step.exit]) (simp_all add: exit_sequence_def)
qed

section \<open>Properties\<close>

text \<open>
  C23: Safety of the shutdown. When \<open>main\<close> has returned normally, the last command the port received is the zero-throttle stop \<open>" \\n"\<close>, whatever the handler did.
\<close>

theorem stop_sent_last:
  assumes "reachable ds s" and "mpc s = M_Done"
  shows "last (sent s) = cmd_stop"
  using reachable_ctl_inv [OF assms(1)] assms(2) by (simp add: ctl_inv_def stop_inv_def)

theorem stop_sent_last_witness:
  "reachable [] st_race_done \<and> mpc st_race_done = M_Done \<and> last (sent st_race_done) = cmd_stop"
  using run_race_done stop_sent_last [OF run_race_done] by simp

text \<open>
  C24: Throttle values. In every reachable state \<open>throttle_command\<close> is a multiple of 50 between 0 and \<open>MAX_PWM = 1600\<close>: the 32-bit addition never wraps.
\<close>

theorem throttle_ramp:
  assumes "reachable ds s"
  shows "\<exists>k\<le>32. sint (throttle s) = 50 * int k"
  using reachable_sint_throttle [OF assms] by auto

theorem throttle_ramp_witness:
  "reachable [] st_race_done \<and> (\<exists>k\<le>32. sint (throttle st_race_done) = 50 * int k)"
  using run_race_done throttle_ramp [OF run_race_done] by simp

text \<open>
  C25: The logged ramp. The throttle column of the CSV rows written so far is 50, 100, 150, ... with no gap and no repetition, at most 32 rows.
\<close>

theorem rows_ramp:
  assumes "reachable ds s"
  shows "map (\<lambda>r. sint (fst r)) (rows s) = map (\<lambda>i. 50 * (int i + 1)) [0..<length (rows s)] \<and>
         length (rows s) \<le> 32"
  using reachable_ctl_inv [OF assms] by (auto simp: ctl_inv_def ramp_rows_def ramp_inv_def)

theorem rows_ramp_witness:
  "reachable [] st_race_done \<and>
   map (\<lambda>r. sint (fst r)) (rows st_race_done) = map (\<lambda>i. 50 * (int i + 1)) [0..<length (rows st_race_done)] \<and>
   length (rows st_race_done) \<le> 32"
  using run_race_done rows_ramp [OF run_race_done] by simp

text \<open>
  C27: Bounded ramp. The port never receives more than 32 throttle increments.
\<close>

theorem increments_bounded:
  assumes "reachable ds s"
  shows "increments (sent s) \<le> 32"
  using reachable_ramp_inv [OF assms] by (simp add: ramp_inv_def ramp_index_def)

theorem increments_bounded_witness:
  "reachable [] st_race_done \<and> increments (sent st_race_done) \<le> 32"
  using run_race_done increments_bounded [OF run_race_done] by simp

text \<open>
  C31: Calibration at zero throttle. While the load cells are calibrated the ESC has received no command but possibly the handler's stop, and the throttle is 0.
\<close>

theorem calibration_at_zero_throttle:
  assumes "reachable ds s" and "mpc s = M_Calibrate"
  shows "set (sent s) \<subseteq> {cmd_stop} \<and> throttle s = 0"
  using reachable_ctl_inv [OF assms(1)] assms(2) by (simp add: ctl_inv_def calib_inv_def ramp_inv_def)

theorem calibration_at_zero_throttle_witness:
  "reachable [] (ctl_init []) \<and> mpc (ctl_init []) = M_Calibrate \<and>
   set (sent (ctl_init [])) \<subseteq> {cmd_stop} \<and> throttle (ctl_init []) = 0"
proof -
  have r: "reachable [] (ctl_init [])" by (rule reachable.start)
  show ?thesis
    using r calibration_at_zero_throttle [OF r] by (simp add: ctl_init_def)
qed

text \<open>
  C26: Monotone throttle. No step of either thread decreases the throttle command.
\<close>

theorem throttle_monotone:
  assumes "reachable ds s" and "ctl_step s s'"
  shows "sint (throttle s) \<le> sint (throttle s')"
proof -
  have "reachable ds s'" using assms by (rule reachable.step)
  then show ?thesis
    using reachable_sint_throttle [OF assms(1)] reachable_sint_throttle [of ds s']
      ctl_step_ramp_index [OF assms(2)] by simp
qed

theorem throttle_monotone_witness:
  "reachable [] st_increment \<and> ctl_step st_increment st_control \<and>
   sint (throttle st_increment) \<le> sint (throttle st_control)"
  using run_increment step_increment throttle_monotone [OF run_increment step_increment] by simp

text \<open>
  C28: A cleared flag stops the ramp. Once the loop test runs with \<open>running\<close> false, no further throttle increment is ever sent, whatever the handler does.
\<close>

theorem cleared_flag_no_increment:
  assumes "mpc s = M_Test" and "\<not> running s" and "ctl_step\<^sup>*\<^sup>* s s'"
  shows "increments (sent s') = increments (sent s)"
proof -
  have "(mpc s' = M_Test \<or> mpc s' = M_Exit \<or> mpc s' = M_Done) \<and> \<not> running s' \<and>
        increments (sent s') = increments (sent s)"
    using assms(3)
  proof (induction rule: rtranclp_induct)
    case base
    then show ?case using assms(1,2) by simp
  next
    case (step t t')
    then show ?case
      by (auto elim!: ctl_step.cases simp: exit_sequence_def alive_def)
  qed
  then show ?thesis by simp
qed

theorem cleared_flag_no_increment_witness:
  "mpc st_race_test = M_Test \<and> \<not> running st_race_test \<and> ctl_step\<^sup>*\<^sup>* st_race_test st_race_done \<and>
   increments (sent st_race_done) = increments (sent st_race_test)"
proof -
  have s: "ctl_step\<^sup>*\<^sup>* st_race_test st_race_done"
    using steps_race_stop by (meson rtranclp.rtrancl_into_rtrancl rtranclp.rtrancl_refl)
  show ?thesis
    using s cleared_flag_no_increment [OF _ _ s] by simp
qed

text \<open>
  C29: Refinement. Every step of the two threads is a step of the specification's ramp machine on the abstraction \<open>ctl_abs\<close>, or leaves the abstraction unchanged.
\<close>

theorem ctl_refines_ramp_spec:
  assumes "reachable ds s" and "ctl_step s s'"
  shows "ramp_spec (ctl_abs s) (ctl_abs s') \<or> ctl_abs s' = ctl_abs s"
  using reachable_ramp_inv [OF assms(1)] assms(2) by (rule ctl_step_refines)

theorem ctl_refines_ramp_spec_witness:
  "reachable [] st_increment \<and> ctl_step st_increment st_control \<and>
   (ramp_spec (ctl_abs st_increment) (ctl_abs st_control) \<or> ctl_abs st_control = ctl_abs st_increment)"
  using run_increment step_increment ctl_refines_ramp_spec [OF run_increment step_increment] by simp

text \<open>
  C30: Termination. The main thread starts with a budget of 132 steps; each of its steps decreases \<open>main_remaining\<close> and the handler's steps leave it unchanged, so \<open>main\<close> executes at most 132 steps in any run.
\<close>

theorem main_terminates:
  assumes "reachable ds s" and "ctl_step s s'"
  shows "main_remaining (ctl_init ds) = 132 \<and>
         ((mpc s' = mpc s \<and> main_remaining s' = main_remaining s) \<or>
          (mpc s' \<noteq> mpc s \<and> main_remaining s' < main_remaining s))"
  using main_remaining_step [OF reachable_ramp_inv [OF assms(1)] assms(2)]
  by (simp add: main_remaining_def ctl_init_def)

theorem main_terminates_witness:
  "reachable [] st_increment \<and> ctl_step st_increment st_control \<and>
   main_remaining (ctl_init []) = 132 \<and>
   ((mpc st_control = mpc st_increment \<and> main_remaining st_control = main_remaining st_increment) \<or>
    (mpc st_control \<noteq> mpc st_increment \<and> main_remaining st_control < main_remaining st_increment))"
  using run_increment step_increment main_terminates [OF run_increment step_increment] by simp

text \<open>
  C32: Thrust of one channel. With one load cell the logged thrust is \<open>reading/g + offset\<close> when the channel reads, and 0.0 when it fails: \<open>thrust\<close> is reset at the top of every iteration.
\<close>

theorem thrust_single_channel:
  assumes "offs \<noteq> []"
  shows "compute_thrust offs [x] =
           Inr (case x of Ok r \<Rightarrow> (1 / calibration_gradients ! 0) * r + offs ! 0 | Err e \<Rightarrow> 0)"
  using thrust_body_single [OF assms] by (simp add: compute_thrust_def)

theorem thrust_single_channel_witness:
  "compute_thrust [2] [Ok (1 / 2)] = Inr ((1 / calibration_gradients ! 0) * (1 / 2) + [2] ! 0)"
  using thrust_single_channel [of "[2]" "Ok (1 / 2)"] by simp

text \<open>
  C33: A throttle increment after the handler's stop. The handler clears \<open>running\<close> and sends the stop while the main thread is between its loop test and \<open>control_sequence\<close>; the main thread then sends \<open>"r"\<close> after the stop.
\<close>

theorem increment_after_handler_stop:
  "\<exists>s. reachable [] s \<and> sent s = [[CHR '' ''], [CHR ''t''], cmd_stop, [CHR ''r'']]"
  using run_race by auto

text \<open>
  C34: Arming after the handler's stop. A signal during calibration sends the stop, and \<open>main\<close> then arms the ESC and sends the handshake before it stops it again.
\<close>

theorem arm_after_handler_stop:
  "\<exists>s. reachable [] s \<and> mpc s = M_Done \<and> sent s = [cmd_stop, [CHR '' ''], [CHR ''t''], cmd_stop]"
  using run_signal_in_calibration by auto

text \<open>
  C35: An abort leaves the motor running. A misframed telemetry reply makes the reader panic after the increment: the process ends with \<open>"r"\<close> as the last command and no stop.
\<close>

theorem abort_without_stop:
  "\<exists>s. reachable [] s \<and> mpc s = M_Aborted \<and> sent s = [[CHR '' ''], [CHR ''t''], [CHR ''r'']]"
  using run_abort by auto

text \<open>
  C22: A run that finishes with no Ctrl-C sent the whole ramp. If \<open>main\<close> returns while
  \<open>running\<close> is still true, the port received exactly the arm, the handshake, 32
  increments and the stop, and the CSV rows hold the throttles 50, 100, ..., 1600.
\<close>

theorem completed_ramp:
  assumes "reachable ds s" and "mpc s = M_Done" and "running s"
  shows "sent s = [[CHR '' ''], [CHR ''t'']] @ replicate 32 [CHR ''r''] @ [cmd_stop] \<and>
         map (\<lambda>r. sint (fst r)) (rows s) = map (\<lambda>i. 50 * (int i + 1)) [0..<32]"
proof -
  have q: "quiet_inv s" and i: "ctl_inv s"
    using assms(1) by (rule reachable_quiet_inv, rule reachable_ctl_inv)
  have k: "increments (sent s) = 32"
    using q assms(2,3) by (simp add: quiet_inv_def ramp_index_def)
  have "length (rows s) = 32"
    using i assms(2) k by (simp add: ctl_inv_def ramp_inv_def ramp_index_def)
  then show ?thesis
    using q i assms(2,3) k by (simp add: quiet_inv_def quiet_sent_def increments_simps ctl_inv_def ramp_rows_def)
qed


theorem completed_ramp_witness:
  "reachable [] st_complete \<and> mpc st_complete = M_Done \<and> running st_complete \<and>
   sent st_complete = [[CHR '' ''], [CHR ''t'']] @ replicate 32 [CHR ''r''] @ [cmd_stop] \<and>
   map (\<lambda>r. sint (fst r)) (rows st_complete) = map (\<lambda>i. 50 * (int i + 1)) [0..<32]"
  using run_complete completed_ramp [OF run_complete] by simp

end
