(* ===== verification/Spec2Isabelle.thy ===== *)
theory Spec2Isabelle
  imports Load_Cell Telemetry Calibration Control
begin

text \<open>
  \<^bold>\<open>A verification library for the thrust-test logger of CUDS_tts.\<close>

  The program (\<open>src/logging/src/main.rs\<close>, \<open>src/logging/src/load_cell.rs\<close>) reads
  one or more HX711 load-cell converters over GPIO lines in lock-step, calibrates their
  zero offset, and ramps an ESC's throttle over a serial port in steps of 50 up to
  \<open>MAX_PWM = 1600\<close>, logging thrust and ESC telemetry per step, while a Ctrl-C handler
  on another thread may clear the \<open>running\<close> flag and send the stop command. Its
  parts, leaves first, and the theory of each:
  \<^item> \<open>Prelude\<close>: machine integers (\<open>u8\<close> to \<open>u64\<close>, \<open>i32\<close> read with \<open>sint\<close>),
    Rust's \<open>Result\<close> as \<open>result\<close>, panics as the left side of \<open>panic + 'a\<close> with the
    bind \<open>pbind\<close>, the loop combinators \<open>for_range\<close>/\<open>try_for_range\<close> for
    \<open>for i in 0..n\<close> with their invariant rules, and the shared list and word lemmas.
  \<^item> \<open>Hx711_Device\<close>: the struct \<open>Hx711\<close> and \<open>Hx711::new\<close>; the record \<open>hx711\<close> holds
    the clock pin the struct drives and the state of the chip behind the data pin,
    with the pin operations \<open>is_high\<close>, \<open>is_low\<close>, \<open>set_high\<close>, \<open>set_low\<close>. The chip
    is not code of the repository: it is modelled from the wire protocol of the
    specification (\<section>6).
  \<^item> \<open>Load_Cell\<close>: \<open>Hx711::read_multiple\<close> loop by loop (\<open>wait_ready\<close> and \<open>gate_body\<close>
    for the ready gate, \<open>shift_round\<close> from \<open>clock_all\<close>, \<open>sample_body\<close> and
    \<open>shift_body\<close> for the 24 shift rounds with the \<open>[u32; 24]\<close> array \<open>temp\<close>,
    \<open>validate_body\<close>, \<open>twos_complement\<close>/\<open>to_reading\<close>/\<open>output_of\<close>), and
    \<open>Hx711::read\<close> with \<open>read_bits\<close>. Lemmas: what a call returns for every device,
    failure isolation, 25 pulses per call, the shape of the result, the panic with
    more than 24 channels, the decoding as \<open>sint\<close>, its round trip and range, and the
    agreement of \<open>read\<close> with \<open>read_multiple\<close>.
  \<^item> \<open>Telemetry\<close>: \<open>process_string\<close> step by step (\<open>trim_end_crlf\<close>, \<open>chunks2\<close>,
    \<open>decode_chunk\<close> with \<open>u8::from_str_radix\<close> as \<open>from_str_radix16\<close>, the fields
    \<open>be16\<close>/\<open>erpm_word\<close>, \<open>telemetry_of\<close>) and the \<open>read_line\<close> loop of
    \<open>control_sequence\<close> as \<open>read_frame\<close>. Lemmas: the hex round trip against the
    ESC's encoding \<open>hex_byte\<close>, the field values without loss in the word widths, what the
    reader returns, the panics on misframed lines, and the chunk parse on every
    ASCII pair (which accepts a \<open>+\<close> sign before one digit).
  \<^item> \<open>Calibration\<close>: \<open>calibrate_zero\<close> as \<open>calib_loop\<close> (the timed loop over
    \<open>read_multiple\<close>), \<open>accumulate\<close>/\<open>stats_body\<close> and \<open>finalize_body\<close>. Lemmas: the
    offset of one channel (the mean over frames, failures counted as 0), exactness on a
    constant input, the panic with more than one channel.
  \<^item> \<open>Control\<close>: \<open>main\<close> from the installation of the handler on, with
    \<open>initialise\<close>, \<open>control_sequence\<close>, \<open>exit_sequence\<close> and the thrust loop
    \<open>compute_thrust\<close>, and the Ctrl-C handler, as one interleaving step relation
    \<open>ctl_step\<close> on the record \<open>ctl\<close> (the two program counters, \<open>running\<close>,
    \<open>throttle_command\<close>, the commands the port received, the devices, the offsets and
    the rows written); \<open>reachable\<close> is its closure from \<open>ctl_init\<close>. Each section
    of \<open>main\<close> that holds the port's mutex is one step, so the handler interleaves only
    at the lock boundaries and at its store to \<open>running\<close>. Lemmas: the invariant
    \<open>ctl_inv\<close> (split into \<open>ramp_inv\<close>, \<open>ramp_rows\<close>, \<open>calib_inv\<close>, \<open>stop_inv\<close>,
    each kept by every step, and \<open>quiet_inv\<close>, what the port holds while no
    Ctrl-C has come, so that a run ending with \<open>running\<close> true sent exactly the
    whole ramp), the refinement of the specification's ramp machine
    \<open>ramp_spec\<close> through \<open>ctl_abs\<close>, the termination measure \<open>main_remaining\<close>, and
    concrete runs that exhibit the orderings the code allows.
  This theory imports them all and proves \<open>ramp_completes\<close>, which composes every
  component: a full ramp from calibration to the stop command, in a run with no
  Ctrl-C, which leaves the loop at \<open>MAX_PWM\<close> on its own.

  \<^bold>\<open>Numbers.\<close> Accumulators and counters are words of the source's width (\<open>u32\<close>
  data, \<open>i32\<close> throttle and single reads, \<open>u64\<close> poll counters, \<open>u8\<close>/\<open>u16\<close>/\<open>u32\<close>
  telemetry fields); the theorems show none of them wraps on the paths they cover.
  Readings, sums and telemetry values are \<open>f64\<close> in the source and real numbers here:
  a 24-bit code divided by \<open>2^23\<close> is exact in \<open>f64\<close>, the other divisions and the
  sums are modelled without rounding.

  \<^bold>\<open>Time and fuel.\<close> The chip's conversion time is counted in reads of its data line
  (\<open>conv_polls\<close>); the gate's budget of \<open>1000000\<close> polls makes \<open>wait_ready\<close> a
  terminating \<open>function\<close> (measure on the \<open>u64\<close> counter) and a chip is read iff
  \<open>conv_polls \<le> 1000001\<close>. The five-second calibration window is the list of frames
  read before the deadline (at least one, since the deadline check runs right after
  \<open>start_time\<close> is taken). Sleeps change no state and are left out; the blocking
  telemetry read ends in its port timeout, an error that the \<open>expect\<close> turns into a
  panic. The environment's choices (frames, ESC replies, conversions) are inputs.

  \<^bold>\<open>Not modelled.\<close> Command-line parsing, the CSV writer, timestamps, printing and
  the opening of the serial port (I/O of external crates, out of scope in the
  specification); failures of port writes (every write succeeds here); the
  \<open>rppal\<close> GPIO and \<open>serialport\<close> crates themselves, whose behaviour is the interface
  of \<open>Hx711_Device\<close> and of the command lists of \<open>Control\<close>; a second Ctrl-C is
  modelled (the handler returns to waiting), a signal before the handler is
  installed is not.
\<close>

section \<open>Properties across the components\<close>

text \<open>
  C21: The ramp completes. With one load cell whatever its initial state, a chip that
  is ready at once for every frame, an ESC that answers every command with a
  well-formed 22-byte frame, the program calibrates, arms the ESC, sends 32 throttle
  increments, writes 32 rows and ends with the stop command, with \<open>running\<close> still
  true and the handler never run: the loop leaves at \<open>MAX_PWM\<close> on its own. The
  acquisition, the calibration, the telemetry reader and the control loop compose.
\<close>

theorem ramp_completes:
  "\<exists>s. reachable [d] s \<and> mpc s = M_Done \<and> running s \<and> hpc s = H_Wait \<and>
       sent s = [[CHR '' ''], [CHR ''t'']] @ replicate 32 [CHR ''r''] @ [cmd_stop] \<and>
       length (rows s) = 32"
proof -
  let ?s0 = "ctl_init [d]"
  have "\<not> clock_pin (hx711_new d)"
    by (simp add: hx711_new_def set_low_def)
  then obtain off d1 where c: "calibrate_zero [[(0, 0)]] [hx711_new d] = Inr ([off], [d1])" and k1: "\<not> clock_pin d1"
    using calibrate_zero_one by blast
  let ?s1 = "?s0\<lparr>mpc := M_Initialise, offset := [off], devs := [d1]\<rparr>"
  let ?s2 = "?s1\<lparr>mpc := M_Test, sent := initialise (sent ?s1)\<rparr>"
  have t1: "ctl_step ?s0 ?s1"
    using ctl_step.calibrate [of ?s0 "[[(0, 0)]]" "[off]" "[d1]"] c by (simp add: ctl_init_def)
  have t2: "ctl_step ?s1 ?s2"
    by (rule ctl_step.initialise) simp
  obtain s3 d3 where s3: "ctl_step\<^sup>*\<^sup>* ?s2 s3" "mpc s3 = M_Test" "running s3" "hpc s3 = H_Wait"
      "throttle s3 = of_nat (50 * 32)" "sent s3 = sent ?s2 @ replicate 32 [CHR ''r'']"
      "length (rows s3) = 32"
    using ramp_iterations [of ?s2 0 32 d1 off] k1 by (auto simp: ctl_init_def)
  have "sint (throttle s3) = 1600"
    using s3(5) sint_ramp [of 32] by simp
  then have t4: "ctl_step s3 (s3\<lparr>mpc := M_Exit\<rparr>)"
    using s3(2) by (intro ctl_step.test_stop) (simp_all add: max_pwm_def)
  have t5: "ctl_step (s3\<lparr>mpc := M_Exit\<rparr>) (s3\<lparr>mpc := M_Done, sent := exit_sequence (sent s3)\<rparr>)"
    using ctl_step.exit [of "s3\<lparr>mpc := M_Exit\<rparr>"] by simp
  have "ctl_step\<^sup>*\<^sup>* ?s0 (s3\<lparr>mpc := M_Done, sent := exit_sequence (sent s3)\<rparr>)"
    using t1 t2 s3(1) t4 t5
    by (meson converse_rtranclp_into_rtranclp rtranclp.rtrancl_into_rtrancl)
  then have "reachable [d] (s3\<lparr>mpc := M_Done, sent := exit_sequence (sent s3)\<rparr>)"
    using reachable.start by (rule reachable_steps)
  then show ?thesis
    using s3 by (intro exI [of _ "s3\<lparr>mpc := M_Done, sent := exit_sequence (sent s3)\<rparr>"])
                (simp add: exit_sequence_def initialise_def ctl_init_def)
qed

end
